theory Spec2Isabelle
  imports Main
begin

section \<open>Constants and types of main.c\<close>

definition COMMAND_NCHARS :: nat where "COMMAND_NCHARS = 128"
definition DELAY_BETWEEN_DEVICE_CHECK :: nat where "DELAY_BETWEEN_DEVICE_CHECK = 3"
definition DEVICE_NAME_NCHARS :: nat where "DEVICE_NAME_NCHARS = 64"
definition LINE_NCHARS :: nat where "LINE_NCHARS = 1024"
definition MAX_MATCHES :: nat where "MAX_MATCHES = 2"
definition RETRIES_NMAX :: nat where "RETRIES_NMAX = 10"
definition SERIAL_NCHARS :: nat where "SERIAL_NCHARS = 128"
definition SHELL_NCHARS :: nat where "SHELL_NCHARS = 128"

text \<open>
  \<^verbatim>\<open>enum color\<close>: a C enumeration is an integer; the enumerators are numbered from 0 and
  \<^verbatim>\<open>COLOR_NMAX\<close> is their count.
\<close>

type_synonym color = nat

definition COLOR_RED :: color where "COLOR_RED = 0"
definition COLOR_GREEN :: color where "COLOR_GREEN = 1"
definition COLOR_YELLOW :: color where "COLOR_YELLOW = 2"
definition COLOR_BLUE :: color where "COLOR_BLUE = 3"
definition COLOR_MAGENTA :: color where "COLOR_MAGENTA = 4"
definition COLOR_CYAN :: color where "COLOR_CYAN = 5"
definition COLOR_BRIGHT_RED :: color where "COLOR_BRIGHT_RED = 6"
definition COLOR_BRIGHT_GREEN :: color where "COLOR_BRIGHT_GREEN = 7"
definition COLOR_BRIGHT_YELLOW :: color where "COLOR_BRIGHT_YELLOW = 8"
definition COLOR_BRIGHT_BLUE :: color where "COLOR_BRIGHT_BLUE = 9"
definition COLOR_BRIGHT_MAGENTA :: color where "COLOR_BRIGHT_MAGENTA = 10"
definition COLOR_BRIGHT_CYAN :: color where "COLOR_BRIGHT_CYAN = 11"
definition COLOR_NMAX :: color where "COLOR_NMAX = 12"

text \<open>\<^verbatim>\<open>color_ansi_table\<close>: the ANSI code of each color, indexed by the enumerator.\<close>

definition color_ansi_table :: "nat list" where
  "color_ansi_table = [31, 32, 33, 34, 35, 36, 91, 92, 93, 94, 95, 96]"

text \<open>\<^verbatim>\<open>enum regex_match\<close>: the index of each group in the array of matches of a log line.\<close>

definition WHOLE :: nat where "WHOLE = 0"
definition TIME :: nat where "TIME = 1"
definition TAGTYPE :: nat where "TAGTYPE = 2"
definition TAG :: nat where "TAG = 3"
definition OWNER :: nat where "OWNER = 4"
definition MESSAGE :: nat where "MESSAGE = 5"
definition MESSAGE_NPARTS :: nat where "MESSAGE_NPARTS = 6"

text \<open>
  Pointers to heap objects and \<^verbatim>\<open>FILE *\<close> handles are numbers; \<^verbatim>\<open>NULL\<close> is
  \<open>None\<close> where a pointer may be null.
\<close>

type_synonym ptr = nat
type_synonym handle = nat

text \<open>
  \<^verbatim>\<open>struct device\<close>. The \<^verbatim>\<open>thread\<close> field is only written by
  \<^verbatim>\<open>pthread_create\<close> and never read; the started workers are kept in the
  \<open>threads\<close> component of the program state.
\<close>

record device =
  name :: string
  fh :: "handle option"
  color :: color

text \<open>
  What the C code does outside the bounds of an array is undefined; the model stops with
  an error value there.
\<close>

datatype error =
    BufferOverflow   \<comment> \<open>a write past the end of a fixed-size array\<close>
  | OutOfBounds      \<comment> \<open>a read of an array at an index past its end\<close>
  | NotTerminated    \<comment> \<open>a string read from an array that holds no terminating NUL\<close>
  | InvalidPointer   \<comment> \<open>a device pointer that is not allocated\<close>

definition ebind :: "error + 'a \<Rightarrow> ('a \<Rightarrow> error + 'b) \<Rightarrow> error + 'b" where
  "ebind x f = (case x of Inl e \<Rightarrow> Inl e | Inr a \<Rightarrow> f a)"

section \<open>Strings and arrays of C\<close>

text \<open>
  A C string is the text before the first NUL of an array of characters; a \<open>string\<close>
  of this theory is that text, an array is the list of all its bytes.
\<close>

definition NUL :: char where "NUL = CHR 0x00"
definition ESC :: char where "ESC = CHR 0x1B"
definition NEWLINE :: char where "NEWLINE = CHR 0x0A"
definition TAB :: char where "TAB = CHR 0x09"
definition BACKSLASH :: char where "BACKSLASH = CHR 0x5C"

text \<open>\<^verbatim>\<open>memset(buf, 0, n)\<close> over the whole of an array of \<open>n\<close> bytes.\<close>

definition memset_zero :: "nat \<Rightarrow> char list" where
  "memset_zero n = replicate n NUL"

text \<open>
  \<^verbatim>\<open>strncpy(dest, src, n)\<close> writes exactly \<open>n\<close> bytes: the first \<open>n\<close>
  characters of the string \<open>src\<close>, then NUL bytes when the string is shorter. It puts
  no NUL after them, and it does not know the size of \<open>dest\<close>.
\<close>

definition strncpy :: "char list \<Rightarrow> string \<Rightarrow> nat \<Rightarrow> error + char list" where
  "strncpy dest src n =
     (if length dest < n then Inl BufferOverflow
      else Inr (take n src @ replicate (n - length src) NUL @ drop n dest))"

text \<open>\<^verbatim>\<open>strcpy(dest, src)\<close> writes the string and its NUL.\<close>

definition strcpy :: "char list \<Rightarrow> string \<Rightarrow> error + char list" where
  "strcpy dest src =
     (if length dest < length src + 1 then Inl BufferOverflow
      else Inr (src @ NUL # drop (length src + 1) dest))"

text \<open>Reading an array as a string, as \<^verbatim>\<open>%s\<close>, \<^verbatim>\<open>strcpy\<close> and the string map do.\<close>

definition c_string :: "char list \<Rightarrow> error + string" where
  "c_string buf =
     (if NUL \<in> set buf then Inr (takeWhile (\<lambda>c. c \<noteq> NUL) buf) else Inl NotTerminated)"

text \<open>
  \<^verbatim>\<open>sprintf(buf + len, ...)\<close> where \<open>len\<close> is the length of the text already in the
  array: the formatted text and a NUL are written after it.
\<close>

definition sprintf :: "nat \<Rightarrow> string \<Rightarrow> string \<Rightarrow> error + string" where
  "sprintf size_of_buf buf txt =
     (if length buf + length txt < size_of_buf then Inr (buf @ txt) else Inl BufferOverflow)"

text \<open>
  \<^verbatim>\<open>fgets(line, n, file)\<close> on the bytes still to come from the pipe: it stores at most
  \<open>n - 1\<close> bytes and stops after a newline; at the end of the stream it returns
  \<^verbatim>\<open>NULL\<close>. The result is the string the array then holds and the rest of the stream.
\<close>

fun take_line :: "nat \<Rightarrow> char list \<Rightarrow> char list" where
  "take_line k [] = []"
| "take_line k (c # cs) =
     (if k = 0 then [] else if c = NEWLINE then [c] else c # take_line (k - 1) cs)"

definition fgets :: "nat \<Rightarrow> char list \<Rightarrow> (string \<times> char list) option" where
  "fgets n file =
     (if file = [] then None
      else (let chunk = take_line (n - 1) file
            in Some (takeWhile (\<lambda>c. c \<noteq> NUL) chunk, drop (length chunk) file)))"

text \<open>
  The lines that a loop \<^verbatim>\<open>while (fgets(line, sizeof(line), file) != NULL)\<close> sees, one
  after the other, for an array of \<^verbatim>\<open>LINE_NCHARS\<close> bytes.
\<close>

function read_lines :: "char list \<Rightarrow> string list" where
  "read_lines file =
     (case fgets LINE_NCHARS file of
        None \<Rightarrow> []
      | Some (line, rest) \<Rightarrow> line # read_lines rest)"
  by pat_completeness auto
termination
proof (relation "measure length")
  show "wf (measure length)" by simp
next
  fix fl :: "char list" and x2 line rest
  assume a: "fgets LINE_NCHARS fl = Some x2" "(line, rest) = x2"
  then obtain c cs where f: "fl = c # cs"
    by (cases fl) (auto simp: fgets_def)
  from a f have "rest = drop (length (take_line 1023 (c # cs))) (c # cs)"
    by (auto simp: fgets_def LINE_NCHARS_def Let_def)
  moreover have "0 < length (take_line 1023 (c # cs))"
    by simp
  ultimately show "(rest, fl) \<in> measure length"
    using f by simp
qed

declare read_lines.simps [simp del]

text \<open>\<^verbatim>\<open>%d\<close> of a number that is not negative.\<close>

fun show_dec :: "nat \<Rightarrow> string" where
  "show_dec n =
     (if n < 10 then [''0123456789'' ! n]
      else show_dec (n div 10) @ [''0123456789'' ! (n mod 10)])"

declare show_dec.simps [simp del]

text \<open>\<^verbatim>\<open>%-16.16s\<close> and \<^verbatim>\<open>%-20.20s\<close>: cut to the width, then filled up with spaces.\<close>

definition show_left :: "nat \<Rightarrow> string \<Rightarrow> string" where
  "show_left w txt = take w txt @ replicate (w - length txt) (CHR '' '')"

section \<open>The two patterns\<close>

text \<open>
  \<^verbatim>\<open>regcomp\<close> and \<^verbatim>\<open>regexec\<close> belong to the C library; each of the two patterns
  is a constant of main.c, compiled with \<^verbatim>\<open>REG_EXTENDED\<close> only. Both are anchored at
  both ends, and every repetition in them is ended by a character it cannot contain, so
  a line matches in at most one way. Without \<^verbatim>\<open>REG_NEWLINE\<close> a newline is an ordinary
  character: the dot matches it, and \<open>$\<close> is the end of the string only. The program
  sets no locale, so the ranges are those of ASCII. The result is
  the array of \<^verbatim>\<open>regmatch_t\<close>, a pair \<^verbatim>\<open>(rm_so, rm_eo)\<close> for the whole match and for
  each group, or \<open>None\<close> for \<^verbatim>\<open>REG_NOMATCH\<close>.
\<close>

definition is_digit :: "char \<Rightarrow> bool" where
  "is_digit c = (c \<in> set ''0123456789'')"

definition is_xdigit :: "char \<Rightarrow> bool" where
  "is_xdigit c = (c \<in> set ''0123456789ABCDEFabcdef'')"

definition is_upper :: "char \<Rightarrow> bool" where
  "is_upper c = (c \<in> set ''ABCDEFGHIJKLMNOPQRSTUVWXYZ'')"

definition is_blank :: "char \<Rightarrow> bool" where
  "is_blank c = (c = CHR '' '' \<or> c = TAB)"

text \<open>
  The listing pattern \<^verbatim>\<open>^([0-9A-Fa-f]+)[ \t]+device.*$\<close>; in the C literal
  \<^verbatim>\<open>\t\<close> is the tab character itself.
\<close>

definition regexec_device :: "string \<Rightarrow> (nat \<times> nat) list option" where
  "regexec_device line =
     (let ident = takeWhile is_xdigit line;
          r1 = dropWhile is_xdigit line;
          blanks = takeWhile is_blank r1;
          r2 = dropWhile is_blank r1
      in if ident \<noteq> [] \<and> blanks \<noteq> [] \<and> take 6 r2 = ''device''
         then Some [(0, length line), (0, length ident)]
         else None)"

text \<open>
  The log pattern
  \<^verbatim>\<open>^([0-9]{2}-[0-9]{2} [0-9]{2}:[0-9]{2}:[0-9]{2}\.[0-9]{3}) ([A-Z])/([^\(]+)\(([^\)]+)\): (.*)$\<close>.
  Inside a bracket expression of POSIX a backslash stands for itself, so the tag is made
  of characters other than backslash and \<open>(\<close>, and the owner of characters other than
  backslash and \<open>)\<close>.
\<close>

datatype atom = Digit | Lit char

fun atom_match :: "atom \<Rightarrow> char \<Rightarrow> bool" where
  "atom_match Digit c = is_digit c"
| "atom_match (Lit l) c = (c = l)"

fun atoms_match :: "atom list \<Rightarrow> string \<Rightarrow> bool" where
  "atoms_match [] [] = True"
| "atoms_match (a # as) (c # cs) = (atom_match a c \<and> atoms_match as cs)"
| "atoms_match [] (c # cs) = False"
| "atoms_match (a # as) [] = False"

definition TIME_PATTERN :: "atom list" where
  "TIME_PATTERN =
     [Digit, Digit, Lit (CHR ''-''), Digit, Digit, Lit (CHR '' ''),
      Digit, Digit, Lit (CHR '':''), Digit, Digit, Lit (CHR '':''), Digit, Digit,
      Lit (CHR ''.''), Digit, Digit, Digit]"

definition tag_char :: "char \<Rightarrow> bool" where
  "tag_char c = (c \<noteq> BACKSLASH \<and> c \<noteq> CHR ''('')"

definition owner_char :: "char \<Rightarrow> bool" where
  "owner_char c = (c \<noteq> BACKSLASH \<and> c \<noteq> CHR '')'')"

definition regexec_log :: "string \<Rightarrow> (nat \<times> nat) list option" where
  "regexec_log line =
     (if atoms_match TIME_PATTERN (take 18 line) then
        (case drop 18 line of
           sp # lv # sl # r1 \<Rightarrow>
             (let tag = takeWhile tag_char r1;
                  r2 = dropWhile tag_char r1;
                  owner = takeWhile owner_char (drop 1 r2);
                  r3 = dropWhile owner_char (drop 1 r2);
                  t = length tag;
                  ow = length owner
              in if sp = CHR '' '' \<and> is_upper lv \<and> sl = CHR ''/'' \<and> tag \<noteq> [] \<and>
                    take 1 r2 = ''('' \<and> owner \<noteq> [] \<and> take 3 r3 = ''): ''
                 then Some [(0, length line), (0, 18), (19, 20), (21, 21 + t),
                            (22 + t, 22 + t + ow), (25 + t + ow, length line)]
                 else None)
         | _ \<Rightarrow> None)
      else None)"

text \<open>
  \<^verbatim>\<open>parse_match\<close>: the array \<open>out\<close> of \<open>out_len\<close> bytes is cleared, the matched
  part of \<open>in\<close> is copied into it, and the callers read it as a string.
\<close>

definition parse_match :: "nat \<times> nat \<Rightarrow> string \<Rightarrow> nat \<Rightarrow> error + string" where
  "parse_match m inp out_len =
     (let len = snd m - fst m
      in ebind (strncpy (memset_zero out_len) (drop (fst m) inp) len) c_string)"

text \<open>
  The layout of a line of the log that the pattern describes:
  \<^verbatim>\<open><timestamp> <level>/<tag>(<owner>): <message>\<close>.
\<close>

definition log_layout :: "string \<Rightarrow> string \<Rightarrow> string \<Rightarrow> string \<Rightarrow> string \<Rightarrow> string" where
  "log_layout time level tg owner message =
     time @ '' '' @ level @ ''/'' @ tg @ ''('' @ owner @ ''): '' @ message"

section \<open>The shared state\<close>

text \<open>
  The global and function-static variables of main.c, the heap of device objects, and the
  effects on the outside world: the pipes that \<^verbatim>\<open>popen\<close> returned and nobody closed,
  the threads started, and the text written to the two output streams.

  The values of \<^verbatim>\<open>tag_map\<close> are pointers to heap cells holding a color; a cell is
  written once, before it is added, and never again, so the map holds the color itself.
\<close>

record state =
  device_heap :: "ptr \<rightharpoonup> device"
  next_ptr :: ptr
  device_map :: "string \<rightharpoonup> ptr"
  tag_map :: "string \<rightharpoonup> color"
  shutdown :: bool
  device_next_color :: color   \<comment> \<open>\<^verbatim>\<open>static next_color\<close> of \<^verbatim>\<open>find_android_devices\<close>\<close>
  tag_next_color :: color      \<comment> \<open>\<^verbatim>\<open>static next_color\<close> of \<^verbatim>\<open>run_logcat\<close>\<close>
  open_pipes :: "handle list"
  next_handle :: handle
  threads :: "ptr list"
  stdout :: "string list"
  stderr :: "string list"
  stray_unlocks :: nat         \<comment> \<open>unlocks of \<^verbatim>\<open>tag_map_lock\<close> by a thread that does not hold it\<close>

subsection \<open>The string map\<close>

text \<open>
  Modelled from the spec: the \<^verbatim>\<open>ccan/strmap\<close> library (\<^verbatim>\<open>strmap_get\<close>,
  \<^verbatim>\<open>strmap_add\<close>, \<^verbatim>\<open>strmap_del\<close>) is not among the sources. The spec's registry is
  a store from keys to values with \<open>lookup(key) -> value or absent\<close>,
  \<open>insert_if_absent(key, value) -> bool inserted\<close> and an idempotent \<open>remove(key)\<close>;
  keys are compared by their text.
\<close>

definition strmap_get :: "(string \<rightharpoonup> 'v) \<Rightarrow> string \<Rightarrow> 'v option" where
  "strmap_get m k = m k"

definition strmap_add :: "(string \<rightharpoonup> 'v) \<Rightarrow> string \<Rightarrow> 'v \<Rightarrow> (string \<rightharpoonup> 'v)" where
  "strmap_add m k v = (case m k of None \<Rightarrow> m(k \<mapsto> v) | Some _ \<Rightarrow> m)"

definition strmap_del :: "(string \<rightharpoonup> 'v) \<Rightarrow> string \<Rightarrow> (string \<rightharpoonup> 'v)" where
  "strmap_del m k = m(k := None)"

subsection \<open>Start of the program\<close>

text \<open>
  \<^verbatim>\<open>main\<close>, lines 184 to 195: both maps are initialised and the tag map is filled with
  four names. Variables of static storage start at zero, which is \<^verbatim>\<open>COLOR_RED\<close> for the
  two color counters and \<^verbatim>\<open>false\<close> for \<^verbatim>\<open>shutdown\<close>.
\<close>

definition main_init :: state where
  "main_init =
     (let m0 = (Map.empty :: string \<rightharpoonup> color);
          m1 = strmap_add m0 ''dalvikvm'' COLOR_BLUE;
          m2 = strmap_add m1 ''Process'' COLOR_BLUE;
          m3 = strmap_add m2 ''ActivityManager'' COLOR_CYAN;
          m4 = strmap_add m3 ''ActivityThread'' COLOR_CYAN
      in \<lparr> device_heap = Map.empty, next_ptr = 0, device_map = Map.empty, tag_map = m4,
           shutdown = False, device_next_color = COLOR_RED, tag_next_color = COLOR_RED,
           open_pipes = [], next_handle = 0, threads = [], stdout = [], stderr = [],
           stray_unlocks = 0 \<rparr>)"

subsection \<open>The two color counters\<close>

text \<open>
  \<^verbatim>\<open>find_android_devices\<close>, lines 273 to 279: under \<^verbatim>\<open>next_color_lock\<close> the new
  device takes \<^verbatim>\<open>next_color\<close>, the counter is incremented and set back to
  \<^verbatim>\<open>COLOR_RED\<close> when it reaches \<^verbatim>\<open>COLOR_NMAX\<close>.
\<close>

definition next_device_color :: "state \<Rightarrow> color \<times> state" where
  "next_device_color s =
     (let c = device_next_color s;
          n = c + 1;
          n' = (if n = COLOR_NMAX then COLOR_RED else n)
      in (c, s\<lparr>device_next_color := n'\<rparr>))"

text \<open>\<^verbatim>\<open>run_logcat\<close>, lines 421 to 428: the same under \<^verbatim>\<open>color_lock\<close>, on its own counter.\<close>

definition next_tag_color :: "state \<Rightarrow> color \<times> state" where
  "next_tag_color s =
     (let c = tag_next_color s;
          n = c + 1;
          n' = (if n = COLOR_NMAX then COLOR_RED else n)
      in (c, s\<lparr>tag_next_color := n'\<rparr>))"

text \<open>
  A sequence of allocations, each from one of the two counters, in the order in which the
  critical sections run; the result is the colors handed out, in that order.
\<close>

datatype counter = DeviceCounter | TagCounter

fun allocate :: "counter \<Rightarrow> state \<Rightarrow> color \<times> state" where
  "allocate DeviceCounter s = next_device_color s"
| "allocate TagCounter s = next_tag_color s"

fun allocate_all :: "counter list \<Rightarrow> state \<Rightarrow> color list" where
  "allocate_all [] s = []"
| "allocate_all (k # ks) s = (case allocate k s of (c, s') \<Rightarrow> c # allocate_all ks s')"

section \<open>The device worker: \<^verbatim>\<open>run_logcat\<close>\<close>

subsection \<open>The color of a tag\<close>

text \<open>
  Lines 413 to 437, one critical section after the other. The map is read under
  \<^verbatim>\<open>tag_map_lock\<close> and the lock is released; when the tag is unknown a color is taken
  from the counter under \<^verbatim>\<open>color_lock\<close>; then the tag is added under
  \<^verbatim>\<open>tag_map_lock\<close>, taken again. A critical section is one step, so every mutex is free
  when a step begins and when it ends.

  When the tag is known, the \<^verbatim>\<open>else\<close> branch of line 436 unlocks \<^verbatim>\<open>tag_map_lock\<close> a
  second time, although the thread gave it up at line 416. POSIX leaves the unlock of a
  mutex that the thread does not hold undefined. It is a call on the mutex alone: it reads
  and writes no variable of the program, and the default mutex of the GNU C library sets
  the mutex free without a check and returns 0. The model therefore does not stop there;
  it counts every such call in \<open>stray_unlocks\<close>, so that a run states how often it made one.
\<close>

definition tag_color :: "string \<Rightarrow> state \<Rightarrow> color \<times> state" where
  "tag_color tag s =
     (case strmap_get (tag_map s) tag of
        Some c \<Rightarrow> (c, s\<lparr>stray_unlocks := stray_unlocks s + 1\<rparr>)
      | None \<Rightarrow>
          (case next_tag_color s of
             (c, s1) \<Rightarrow> (c, s1\<lparr>tag_map := strmap_add (tag_map s1) tag c\<rparr>)))"

subsection \<open>One line of the log\<close>

text \<open>The \<^verbatim>\<open>switch\<close> on the first character of the level, lines 444 to 463.\<close>

definition level_badge :: "string \<Rightarrow> string" where
  "level_badge m =
     (case m of
        [] \<Rightarrow> []
      | c # _ \<Rightarrow>
          if c = CHR ''D'' then ESC # ''[30;44m D '' @ ESC # ''[0m''
          else if c = CHR ''E'' then ESC # ''[30;41m E '' @ ESC # ''[0m''
          else if c = CHR ''F'' then ESC # ''[5;30;41m F '' @ ESC # ''[0m''
          else if c = CHR ''I'' then ESC # ''[30;42m I '' @ ESC # ''[0m''
          else if c = CHR ''V'' then ESC # ''[37m V ''
          else if c = CHR ''W'' then ESC # ''[30;43m W '' @ ESC # ''[0m''
          else [])"

text \<open>The texts of the \<^verbatim>\<open>sprintf\<close> calls of lines 394 to 468.\<close>

definition color_ansi :: "color \<Rightarrow> error + nat" where
  "color_ansi c =
     (if c < length color_ansi_table then Inr (color_ansi_table ! c) else Inl OutOfBounds)"

definition fmt_device :: "nat \<Rightarrow> string \<Rightarrow> string" where
  "fmt_device code nm = ESC # ''['' @ show_dec code @ ''m'' @ show_left 16 nm @ ESC # ''[0m''"

definition fmt_time :: "string \<Rightarrow> string" where
  "fmt_time txt = CHR '' '' # ESC # ''[34m'' @ txt @ ESC # ''[0m''"

definition fmt_owner :: "string \<Rightarrow> string" where
  "fmt_owner txt = CHR '' '' # ESC # ''[30;100m'' @ txt @ ESC # ''[0m''"

definition fmt_tag :: "nat \<Rightarrow> string \<Rightarrow> string" where
  "fmt_tag code txt =
     CHR '' '' # ESC # ''['' @ show_dec code @ ''m'' @ show_left 20 txt @ ESC # ''[0m''"

definition fmt_message :: "string \<Rightarrow> string" where
  "fmt_message txt = CHR '' '' # ESC # ''[1;30m'' @ txt @ ESC # ''[0m''"

text \<open>
  The record of one line: the texts of the seven calls, one after the other, as they
  stand in \<^verbatim>\<open>log\<close> when it is written to the standard output.
\<close>

definition log_record ::
  "nat \<Rightarrow> string \<Rightarrow> string \<Rightarrow> string \<Rightarrow> nat \<Rightarrow> string \<Rightarrow> string \<Rightarrow> string \<Rightarrow> string" where
  "log_record dcode nm time owner tcode tg level message =
     fmt_device dcode nm @ fmt_time time @ fmt_owner owner @ fmt_tag tcode tg @ '' '' @
     level_badge level @ fmt_message message"

text \<open>
  The body of the reading loop, lines 377 to 472, for the worker of the device at \<open>d\<close>
  and the line that \<^verbatim>\<open>fgets\<close> returned. The array \<^verbatim>\<open>log\<close> has
  \<^verbatim>\<open>LINE_NCHARS\<close> bytes, as has \<^verbatim>\<open>match\<close>.
\<close>

definition logcat_line :: "ptr \<Rightarrow> string \<Rightarrow> state \<Rightarrow> error + state" where
  "logcat_line d line s =
     (case device_heap s d of
        None \<Rightarrow> Inl InvalidPointer
      | Some dev \<Rightarrow>
          (case regexec_log line of
             None \<Rightarrow>
               Inr (s\<lparr>stderr := stderr s @
                     [''Received line that did not match pattern: '' @ line @ ''.'' @ [NEWLINE]]\<rparr>)
           | Some matches \<Rightarrow>
               ebind (color_ansi (color dev)) (\<lambda>dcode.
               ebind (sprintf LINE_NCHARS [] (fmt_device dcode (name dev))) (\<lambda>log1.
               ebind (parse_match (matches ! TIME) line LINE_NCHARS) (\<lambda>time.
               ebind (sprintf LINE_NCHARS log1 (fmt_time time)) (\<lambda>log2.
               ebind (parse_match (matches ! OWNER) line LINE_NCHARS) (\<lambda>owner.
               ebind (sprintf LINE_NCHARS log2 (fmt_owner owner)) (\<lambda>log3.
               ebind (parse_match (matches ! TAG) line LINE_NCHARS) (\<lambda>tag.
               (case tag_color tag s of
                  (c, s1) \<Rightarrow>
               ebind (color_ansi c) (\<lambda>tcode.
               ebind (sprintf LINE_NCHARS log3 (fmt_tag tcode tag)) (\<lambda>log4.
               ebind (sprintf LINE_NCHARS log4 '' '') (\<lambda>log5.
               ebind (parse_match (matches ! TAGTYPE) line LINE_NCHARS) (\<lambda>level.
               ebind (sprintf LINE_NCHARS log5 (level_badge level)) (\<lambda>log6.
               ebind (parse_match (matches ! MESSAGE) line LINE_NCHARS) (\<lambda>message.
               ebind (sprintf LINE_NCHARS log6 (fmt_message message)) (\<lambda>log7.
               Inr (s1\<lparr>stdout := stdout s1 @ [log7]\<rparr>))))))))))))))))))"

text \<open>
  The loop \<^verbatim>\<open>while (!shutdown && fgets(...) != NULL)\<close> over the lines still to come.
\<close>

fun logcat_loop :: "ptr \<Rightarrow> string list \<Rightarrow> state \<Rightarrow> error + state" where
  "logcat_loop d [] s = Inr s"
| "logcat_loop d (l # ls) s =
     (if shutdown s then Inr s
      else (case logcat_line d l s of
              Inl e \<Rightarrow> Inl e
            | Inr s' \<Rightarrow> logcat_loop d ls s'))"

subsection \<open>Opening the log\<close>

text \<open>
  \<^verbatim>\<open>popen\<close>: whether it succeeds is for the outside world to say. A stream it
  returns stays open until \<^verbatim>\<open>pclose\<close>, which main.c never calls.
\<close>

definition popen :: "bool \<Rightarrow> state \<Rightarrow> handle option \<times> state" where
  "popen ok s =
     (if ok
      then (Some (next_handle s),
            s\<lparr>open_pipes := open_pipes s @ [next_handle s], next_handle := next_handle s + 1\<rparr>)
      else (None, s))"

definition set_fh :: "ptr \<Rightarrow> device \<Rightarrow> handle option \<Rightarrow> state \<Rightarrow> state" where
  "set_fh d dev h s = s\<lparr>device_heap := (device_heap s)(d \<mapsto> dev\<lparr>fh := h\<rparr>)\<rparr>"

text \<open>
  The \<^verbatim>\<open>do ... while (d->fh == NULL)\<close> loop of lines 353 to 366. \<open>popens k\<close> says
  whether the worker's call number \<open>k\<close> of \<^verbatim>\<open>popen\<close> succeeds; call 0 is the one of
  line 352, so the loop makes call \<open>retries + 1\<close>. The result is \<open>False\<close> where the
  function returns from inside the loop.
\<close>

function logcat_open :: "(nat \<Rightarrow> bool) \<Rightarrow> nat \<Rightarrow> ptr \<Rightarrow> device \<Rightarrow> state \<Rightarrow> bool \<times> state" where
  "logcat_open popens retries d dev s =
     (case popen (popens (retries + 1)) s of
        (h, s1) \<Rightarrow>
          (let s2 = set_fh d dev h s1
           in (case h of
                 Some _ \<Rightarrow> (True, s2)
               | None \<Rightarrow>
                   (let s3 = s2\<lparr>stderr := stderr s2 @ [''Failure to open device'' @ [NEWLINE]]\<rparr>;
                        retries' = retries + 1
                    in if retries' > RETRIES_NMAX
                       then (False, s3\<lparr>stderr := stderr s3 @
                               [''Failure to start logcat for device: '' @ name dev @ [NEWLINE]]\<rparr>)
                       else logcat_open popens retries' d dev s3))))"
  by pat_completeness auto
termination
  by (relation "measure (\<lambda>(popens, retries, d, dev, s). Suc RETRIES_NMAX - retries)") auto

declare logcat_open.simps [simp del]

text \<open>Lines 475 to 481: the entry of the device is deleted and the device is freed.\<close>

definition logcat_cleanup :: "ptr \<Rightarrow> state \<Rightarrow> error + state" where
  "logcat_cleanup d s =
     (case device_heap s d of
        None \<Rightarrow> Inl InvalidPointer
      | Some dev \<Rightarrow>
          Inr (s\<lparr>device_map := strmap_del (device_map s) (name dev),
                 device_heap := (device_heap s)(d := None)\<rparr>))"

text \<open>
  The start of \<^verbatim>\<open>run_logcat\<close>, lines 349 to 366: \<open>False\<close> where the worker returns
  without reading.
\<close>

definition logcat_start :: "ptr \<Rightarrow> (nat \<Rightarrow> bool) \<Rightarrow> state \<Rightarrow> error + bool \<times> state" where
  "logcat_start d popens s =
     (case device_heap s d of
        None \<Rightarrow> Inl InvalidPointer
      | Some dev \<Rightarrow>
          (case popen (popens 0) s of
             (h, s1) \<Rightarrow> Inr (logcat_open popens 0 d dev (set_fh d dev h s1))))"

text \<open>
  The whole of \<^verbatim>\<open>run_logcat\<close> for the device at \<open>d\<close>; \<open>stream\<close> is what the pipe
  that was opened last delivers until it ends.
\<close>

definition run_logcat :: "ptr \<Rightarrow> (nat \<Rightarrow> bool) \<Rightarrow> char list \<Rightarrow> state \<Rightarrow> error + state" where
  "run_logcat d popens stream s =
     ebind (logcat_start d popens s) (\<lambda>(opened, s1).
       if opened
       then ebind (logcat_loop d (read_lines stream) s1) (logcat_cleanup d)
       else Inr s1)"

section \<open>The discovery loop\<close>

text \<open>
  The body of the loop of \<^verbatim>\<open>find_android_devices\<close>, lines 241 to 287, for one line of
  the listing. The array \<^verbatim>\<open>name\<close> has \<^verbatim>\<open>DEVICE_NAME_NCHARS\<close> bytes, the field
  \<^verbatim>\<open>device->name\<close> has \<^verbatim>\<open>SERIAL_NCHARS\<close>. \<^verbatim>\<open>malloc\<close> and
  \<^verbatim>\<open>pthread_create\<close> are taken to succeed.
\<close>

definition find_devices_line :: "string \<Rightarrow> state \<Rightarrow> error + state" where
  "find_devices_line line s =
     (case regexec_device line of
        None \<Rightarrow> Inr s
      | Some matches \<Rightarrow>
          (let start = fst (matches ! 1);
               len = snd (matches ! 1) - start
           in if len = 0
              then Inr (s\<lparr>stderr := stderr s @
                          [''Could not find start / end of match.'' @ [NEWLINE]]\<rparr>)
              else
                ebind (strncpy (memset_zero DEVICE_NAME_NCHARS) (drop start line) len) (\<lambda>name_buf.
                ebind (c_string name_buf) (\<lambda>nm.
                (case strmap_get (device_map s) nm of
                   Some _ \<Rightarrow> Inr s
                 | None \<Rightarrow>
                     ebind (strcpy (memset_zero SERIAL_NCHARS) nm) (\<lambda>dev_name_buf.
                     ebind (c_string dev_name_buf) (\<lambda>dev_name.
                     (case next_device_color s of
                        (c, s1) \<Rightarrow>
                          (let p = next_ptr s1;
                               dev = \<lparr>name = dev_name, fh = None, color = c\<rparr>;
                               s2 = s1\<lparr>device_heap := (device_heap s1)(p \<mapsto> dev),
                                       next_ptr := p + 1\<rparr>;
                               s3 = s2\<lparr>device_map := strmap_add (device_map s2) dev_name p\<rparr>
                           in Inr (s3\<lparr>threads := threads s3 @ [p]\<rparr>))))))))))"

fun find_devices_loop :: "string list \<Rightarrow> state \<Rightarrow> error + state" where
  "find_devices_loop [] s = Inr s"
| "find_devices_loop (l # ls) s =
     (case find_devices_line l s of
        Inl e \<Rightarrow> Inl e
      | Inr s' \<Rightarrow> find_devices_loop ls s')"

text \<open>
  \<^verbatim>\<open>find_android_devices\<close>: \<open>listing\<close> is what \<^verbatim>\<open>adb devices\<close> prints. The pipe is
  taken to open; nothing closes it.
\<close>

definition find_android_devices :: "char list \<Rightarrow> state \<Rightarrow> error + state" where
  "find_android_devices listing s =
     (case popen True s of (h, s1) \<Rightarrow> find_devices_loop (read_lines listing) s1)"

section \<open>Threads running side by side\<close>

text \<open>
  What one thread does between two steps of another: the discovery thread handles a
  line of a listing, or a worker opens its log, handles a line, or cleans up.
\<close>

datatype event =
    DiscoverLine string
  | WorkerStart ptr "nat \<Rightarrow> bool"
  | WorkerLine ptr string
  | WorkerCleanup ptr

fun step :: "event \<Rightarrow> state \<Rightarrow> error + state" where
  "step (DiscoverLine l) s = find_devices_line l s"
| "step (WorkerStart d popens) s = ebind (logcat_start d popens s) (\<lambda>(opened, s1). Inr s1)"
| "step (WorkerLine d l) s = logcat_line d l s"
| "step (WorkerCleanup d) s = logcat_cleanup d s"

fun run_events :: "event list \<Rightarrow> state \<Rightarrow> error + state" where
  "run_events [] s = Inr s"
| "run_events (e # es) s =
     (case step e s of
        Inl err \<Rightarrow> Inl err
      | Inr s' \<Rightarrow> run_events es s')"

text \<open>
  \<^verbatim>\<open>run_find_devices\<close>: \<^verbatim>\<open>while (!shutdown) { find_android_devices(); sleep(...); }\<close>.
  Each round is the listing of one poll and what the workers do until the flag is read
  again. The loop has no other exit, so the rounds are those seen so far: \<open>None\<close> when
  the loop is still running after them, \<open>Some\<close> when it has returned or has stopped on
  an error.
\<close>

fun run_find_devices :: "(char list \<times> event list) list \<Rightarrow> state \<Rightarrow> (error + state) option" where
  "run_find_devices [] s = (if shutdown s then Some (Inr s) else None)"
| "run_find_devices ((listing, evs) # rounds) s =
     (if shutdown s then Some (Inr s)
      else (case ebind (find_android_devices listing s) (run_events evs) of
              Inl e \<Rightarrow> Some (Inl e)
            | Inr s' \<Rightarrow> run_find_devices rounds s'))"

text \<open>
  \<^verbatim>\<open>main\<close> waits in \<^verbatim>\<open>pthread_join\<close> for \<^verbatim>\<open>run_find_devices\<close> to return, and
  returns 0 after it: the exit status, when there is one. The count of the devices found
  in the first second only decides whether a message goes to the standard error.
\<close>

definition main :: "(char list \<times> event list) list \<Rightarrow> int option" where
  "main rounds =
     (case run_find_devices rounds main_init of
        Some (Inr s) \<Rightarrow> Some 0
      | _ \<Rightarrow> None)"

subsection \<open>Two workers on the tag map\<close>

text \<open>
  The steps of lines 413 to 439 that touch shared variables, each one under its lock, for
  a worker whose array \<^verbatim>\<open>match\<close> holds \<open>w_tag\<close>: the lookup, the allocation, the
  insertion, and the use of \<^verbatim>\<open>*color\<close> in the tag field; the lookup of a known tag
  is followed by the second unlock of line 436. \<open>w_col\<close> is the worker's local
  pointer \<^verbatim>\<open>color\<close>, \<open>None\<close> for \<^verbatim>\<open>NULL\<close>; \<open>w_shown\<close> is the color the worker
  printed the tag in.
\<close>

datatype pc = AT_GET | AT_ALLOC | AT_ADD | AT_PRINT | AT_DONE

record tag_worker =
  w_at :: pc
  w_tag :: string
  w_col :: "color option"
  w_shown :: "color option"

definition tag_worker_init :: "string \<Rightarrow> tag_worker" where
  "tag_worker_init t = \<lparr>w_at = AT_GET, w_tag = t, w_col = None, w_shown = None\<rparr>"

definition tag_step :: "tag_worker \<Rightarrow> state \<Rightarrow> tag_worker \<times> state" where
  "tag_step w s =
     (case w_at w of
        AT_GET \<Rightarrow>
          (case strmap_get (tag_map s) (w_tag w) of
             None \<Rightarrow> (w\<lparr>w_at := AT_ALLOC, w_col := None\<rparr>, s)
           | Some c \<Rightarrow>
               (w\<lparr>w_at := AT_PRINT, w_col := Some c\<rparr>,
                s\<lparr>stray_unlocks := stray_unlocks s + 1\<rparr>))
      | AT_ALLOC \<Rightarrow>
          (case next_tag_color s of (c, s1) \<Rightarrow> (w\<lparr>w_at := AT_ADD, w_col := Some c\<rparr>, s1))
      | AT_ADD \<Rightarrow>
          (case w_col w of
             None \<Rightarrow> (w\<lparr>w_at := AT_PRINT\<rparr>, s)
           | Some c \<Rightarrow> (w\<lparr>w_at := AT_PRINT\<rparr>, s\<lparr>tag_map := strmap_add (tag_map s) (w_tag w) c\<rparr>))
      | AT_PRINT \<Rightarrow> (w\<lparr>w_at := AT_DONE, w_shown := w_col w\<rparr>, s)
      | AT_DONE \<Rightarrow> (w, s))"

text \<open>A schedule names, step by step, the worker that runs next.\<close>

fun run_schedule :: "nat list \<Rightarrow> tag_worker list \<times> state \<Rightarrow> tag_worker list \<times> state" where
  "run_schedule [] c = c"
| "run_schedule (i # is) (ws, s) =
     (if i < length ws
      then (case tag_step (ws ! i) s of (w', s') \<Rightarrow> run_schedule is (ws[i := w'], s'))
      else run_schedule is (ws, s))"

section \<open>An invariant of the shared state\<close>

text \<open>
  What holds of the shared variables whenever a thread has finished one of the steps
  above: the flag is not set, every color in use is one of the palette, the four tags
  of the start are still in the tag map with their colors, the tag counter has not moved
  while the tag map is the one of the start, and the device counter is the number of
  workers started so far, modulo the size of the palette.
\<close>

definition state_ok :: "state \<Rightarrow> bool" where
  "state_ok s =
     (\<not> shutdown s \<and>
      device_next_color s < COLOR_NMAX \<and> tag_next_color s < COLOR_NMAX \<and>
      (\<forall>p dev. device_heap s p = Some dev \<longrightarrow> color dev < COLOR_NMAX) \<and>
      (\<forall>t c. tag_map s t = Some c \<longrightarrow> c < COLOR_NMAX) \<and>
      tag_map main_init \<subseteq>\<^sub>m tag_map s \<and>
      (tag_map s = tag_map main_init \<longrightarrow> tag_next_color s = COLOR_RED) \<and>
      device_next_color s = length (threads s) mod COLOR_NMAX)"

section \<open>Properties\<close>

subsection \<open>The color counters\<close>

lemmas color_defs =
  COLOR_RED_def COLOR_GREEN_def COLOR_YELLOW_def COLOR_BLUE_def COLOR_MAGENTA_def
  COLOR_CYAN_def COLOR_BRIGHT_RED_def COLOR_BRIGHT_GREEN_def COLOR_BRIGHT_YELLOW_def
  COLOR_BRIGHT_BLUE_def COLOR_BRIGHT_MAGENTA_def COLOR_BRIGHT_CYAN_def COLOR_NMAX_def

lemma next_device_color_eq:
  "device_next_color s < COLOR_NMAX \<Longrightarrow>
   next_device_color s =
     (device_next_color s, s\<lparr>device_next_color := (device_next_color s + 1) mod COLOR_NMAX\<rparr>)"
  by (auto simp: next_device_color_def Let_def color_defs)

lemma next_tag_color_eq:
  "tag_next_color s < COLOR_NMAX \<Longrightarrow>
   next_tag_color s =
     (tag_next_color s, s\<lparr>tag_next_color := (tag_next_color s + 1) mod COLOR_NMAX\<rparr>)"
  by (auto simp: next_tag_color_def Let_def color_defs)

lemma COLOR_NMAX_pos: "0 < COLOR_NMAX" by (simp add: color_defs)

lemma allocate_all_nth:
  "i < length ks \<Longrightarrow> device_next_color s < COLOR_NMAX \<Longrightarrow> tag_next_color s < COLOR_NMAX \<Longrightarrow>
   allocate_all ks s ! i =
     ((case ks ! i of DeviceCounter \<Rightarrow> device_next_color s | TagCounter \<Rightarrow> tag_next_color s)
        + length (filter (\<lambda>k. k = ks ! i) (take i ks))) mod COLOR_NMAX"
proof (induction ks arbitrary: i s)
  case Nil
  then show ?case by simp
next
  case (Cons k ks)
  show ?case
  proof (cases i)
    case 0
    then show ?thesis using Cons.prems
      by (cases k) (simp_all add: next_device_color_eq next_tag_color_eq)
  next
    case (Suc j)
    then have j: "j < length ks" using Cons.prems by simp
    show ?thesis
    proof (cases k)
      case DeviceCounter
      let ?s = "s\<lparr>device_next_color := (device_next_color s + 1) mod COLOR_NMAX\<rparr>"
      have "allocate_all (k # ks) s ! i = allocate_all ks ?s ! j"
        using Suc DeviceCounter Cons.prems by (simp add: next_device_color_eq)
      also have "\<dots> = ((case ks ! j of DeviceCounter \<Rightarrow> device_next_color ?s | TagCounter \<Rightarrow> tag_next_color ?s)
        + length (filter (\<lambda>k. k = ks ! j) (take j ks))) mod COLOR_NMAX"
        using Cons.prems by (intro Cons.IH[OF j]) (simp_all add: COLOR_NMAX_pos)
      finally show ?thesis using Suc DeviceCounter
        by (cases "ks ! j") (simp_all add: mod_simps)
    next
      case TagCounter
      let ?s = "s\<lparr>tag_next_color := (tag_next_color s + 1) mod COLOR_NMAX\<rparr>"
      have "allocate_all (k # ks) s ! i = allocate_all ks ?s ! j"
        using Suc TagCounter Cons.prems by (simp add: next_tag_color_eq)
      also have "\<dots> = ((case ks ! j of DeviceCounter \<Rightarrow> device_next_color ?s | TagCounter \<Rightarrow> tag_next_color ?s)
        + length (filter (\<lambda>k. k = ks ! j) (take j ks))) mod COLOR_NMAX"
        using Cons.prems by (intro Cons.IH[OF j]) (simp_all add: COLOR_NMAX_pos)
      finally show ?thesis using Suc TagCounter
        by (cases "ks ! j") (simp_all add: mod_simps)
    qed
  qed
qed

lemma main_init_simps:
  "device_next_color main_init = COLOR_RED" "tag_next_color main_init = COLOR_RED"
  "shutdown main_init = False" "device_map main_init = Map.empty"
  "device_heap main_init = Map.empty" "threads main_init = []" "stdout main_init = []"
  "open_pipes main_init = []" "next_ptr main_init = 0" "next_handle main_init = 0"
  "stderr main_init = []" "stray_unlocks main_init = 0"
  by (simp_all add: main_init_def Let_def)

subsection \<open>Errors, strings and the log pattern\<close>

lemma ebind_Inr_iff: "ebind x f = Inr y \<longleftrightarrow> (\<exists>a. x = Inr a \<and> f a = Inr y)"
  by (cases x) (simp_all add: ebind_def)

lemma ebind_Inr [simp]: "ebind (Inr a) f = f a"
  by (simp add: ebind_def)

lemma ebind_Inl [simp]: "ebind (Inl e) f = Inl e"
  by (simp add: ebind_def)

lemma atoms_match_length: "atoms_match as cs \<Longrightarrow> length cs = length as"
  by (induction as cs rule: atoms_match.induct) simp_all

lemma take3_eqD: "take 3 xs = [a, b, c] \<Longrightarrow> xs = a # b # c # drop 3 xs"
  by (cases xs; cases "tl xs"; cases "tl (tl xs)") (auto simp: numeral_3_eq_3)

lemma take1_eqD: "take 1 xs = [a] \<Longrightarrow> xs = a # drop 1 xs"
  by (cases xs) simp_all

lemma regexec_log_SomeD:
  assumes "regexec_log line = Some m"
  shows "\<exists>ts lv tg ow msg.
           line = ts @ CHR '' '' # lv # CHR ''/'' # tg @ CHR ''('' # ow @ ''): '' @ msg \<and>
           length ts = 18 \<and> atoms_match TIME_PATTERN ts \<and> is_upper lv \<and>
           tg \<noteq> [] \<and> list_all tag_char tg \<and> ow \<noteq> [] \<and> list_all owner_char ow \<and>
           m = [(0, length line), (0, 18), (19, 20), (21, 21 + length tg),
                (22 + length tg, 22 + length tg + length ow),
                (25 + length tg + length ow, length line)]"
proof -
  from assms have tm: "atoms_match TIME_PATTERN (take 18 line)"
    by (auto simp: regexec_log_def split: if_splits)
  then have l18: "length (take 18 line) = 18"
    by (drule_tac atoms_match_length) (simp add: TIME_PATTERN_def)
  from assms tm obtain sp lv sl r1 where d: "drop 18 line = sp # lv # sl # r1"
    by (auto simp: regexec_log_def split: list.splits)
  define tg where "tg = takeWhile tag_char r1"
  define r2 where "r2 = dropWhile tag_char r1"
  define ow where "ow = takeWhile owner_char (drop 1 r2)"
  define r3 where "r3 = dropWhile owner_char (drop 1 r2)"
  from assms tm d have c: "sp = CHR '' ''" "is_upper lv" "sl = CHR ''/''" "tg \<noteq> []"
      "take 1 r2 = ''(''" "ow \<noteq> []" "take 3 r3 = ''): ''"
    and m: "m = [(0, length line), (0, 18), (19, 20), (21, 21 + length tg),
                (22 + length tg, 22 + length tg + length ow),
                (25 + length tg + length ow, length line)]"
    by (auto simp: regexec_log_def Let_def tg_def r2_def ow_def r3_def split: if_splits)
  have "line = take 18 line @ drop 18 line" by simp
  also have "drop 18 line = sp # lv # sl # tg @ r2"
    by (simp add: d tg_def r2_def)
  also have "r2 = CHR ''('' # drop 1 r2" using c(5) by (rule take1_eqD)
  also have "drop 1 r2 = ow @ r3" by (simp add: ow_def r3_def)
  also have "r3 = ''): '' @ drop 3 r3" using take3_eqD[OF c(7)] by simp
  finally have "line = take 18 line @ CHR '' '' # lv # CHR ''/'' # tg @ CHR ''('' # ow @ ''): '' @ drop 3 r3"
    using c by simp
  moreover have "list_all tag_char tg" "list_all owner_char ow"
    by (simp_all add: tg_def ow_def list_all_iff) (auto dest: set_takeWhileD)
  ultimately show ?thesis using l18 tm c m by blast
qed

lemma take_line_length: "length (take_line k xs) \<le> k"
  by (induction k xs rule: take_line.induct) auto

lemma fgets_line_props:
  "fgets n fl = Some (line, rest) \<Longrightarrow> length line \<le> n - 1 \<and> NUL \<notin> set line"
proof -
  assume a: "fgets n fl = Some (line, rest)"
  then have l: "line = takeWhile (\<lambda>c. c \<noteq> NUL) (take_line (n - 1) fl)"
    by (auto simp: fgets_def Let_def split: if_splits)
  have "length line \<le> length (take_line (n - 1) fl)"
    unfolding l by (rule length_takeWhile_le)
  also have "\<dots> \<le> n - 1" by (rule take_line_length)
  finally have "length line \<le> n - 1" .
  moreover have "NUL \<notin> set line" unfolding l by (auto dest: set_takeWhileD)
  ultimately show ?thesis by simp
qed

lemma read_lines_props:
  "line \<in> set (read_lines fl) \<Longrightarrow> length line < LINE_NCHARS \<and> NUL \<notin> set line"
proof (induction fl rule: read_lines.induct)
  case (1 fl)
  show ?case
  proof (cases "fgets LINE_NCHARS fl")
    case None
    with 1(2) show ?thesis by (subst (asm) read_lines.simps) simp
  next
    case (Some p)
    obtain l rest where p: "p = (l, rest)" by (cases p)
    from 1(2) Some p have "line = l \<or> line \<in> set (read_lines rest)"
      by (subst (asm) read_lines.simps) simp
    then show ?thesis
    proof
      assume "line = l"
      with fgets_line_props[of LINE_NCHARS fl l rest] Some p show ?thesis
        by (simp add: LINE_NCHARS_def)
    next
      assume "line \<in> set (read_lines rest)"
      with 1(1)[OF Some p[symmetric]] show ?thesis by simp
    qed
  qed
qed

lemma c_string_padded:
  assumes "NUL \<notin> set xs" "0 < k"
  shows "c_string (xs @ replicate k NUL) = Inr xs"
proof -
  have "takeWhile (\<lambda>c. c \<noteq> NUL) (xs @ replicate k NUL)
        = xs @ takeWhile (\<lambda>c. c \<noteq> NUL) (replicate k NUL)"
    by (rule takeWhile_append2) (use assms in auto)
  moreover have "takeWhile (\<lambda>c. c \<noteq> NUL) (replicate k NUL) = []"
    by (cases k) simp_all
  moreover have "NUL \<in> set (xs @ replicate k NUL)"
    using assms(2) by simp
  ultimately show ?thesis
    by (simp add: c_string_def)
qed

lemma parse_match_sub:
  assumes "NUL \<notin> set line" "length line < out_len" "so \<le> eo" "eo \<le> length line"
  shows "parse_match (so, eo) line out_len = Inr (take (eo - so) (drop so line))"
proof -
  let ?len = "eo - so"
  have le: "?len \<le> length (drop so line)" using assms by simp
  have "strncpy (memset_zero out_len) (drop so line) ?len
        = Inr (take ?len (drop so line) @ replicate (out_len - ?len) NUL)"
    using assms le by (simp add: strncpy_def memset_zero_def)
  moreover have "NUL \<notin> set (take ?len (drop so line))"
    using assms(1) by (auto dest: in_set_takeD in_set_dropD)
  moreover have "0 < out_len - ?len" using assms by simp
  ultimately show ?thesis
    by (simp add: parse_match_def c_string_padded)
qed

lemmas regex_match_defs =
  WHOLE_def TIME_def TAGTYPE_def TAG_def OWNER_def MESSAGE_def MESSAGE_NPARTS_def

lemma take_drop_mid: "length p = n \<Longrightarrow> take (length x) (drop n (p @ x @ r)) = x"
  by simp

lemma drop_prefix: "length p = n \<Longrightarrow> drop n (p @ r) = r"
  by simp

lemma regexec_log_fields:
  assumes nul: "NUL \<notin> set line" and len: "length line < LINE_NCHARS"
    and m: "regexec_log line = Some m"
  shows "\<exists>ts lv tg ow msg.
           line = ts @ CHR '' '' # lv # CHR ''/'' # tg @ CHR ''('' # ow @ ''): '' @ msg \<and>
           length ts = 18 \<and> tg \<noteq> [] \<and> ow \<noteq> [] \<and>
           parse_match (m ! TIME) line LINE_NCHARS = Inr ts \<and>
           parse_match (m ! TAGTYPE) line LINE_NCHARS = Inr [lv] \<and>
           parse_match (m ! TAG) line LINE_NCHARS = Inr tg \<and>
           parse_match (m ! OWNER) line LINE_NCHARS = Inr ow \<and>
           parse_match (m ! MESSAGE) line LINE_NCHARS = Inr msg"
proof -
  from regexec_log_SomeD[OF m] obtain ts lv tg ow msg where
    line: "line = ts @ CHR '' '' # lv # CHR ''/'' # tg @ CHR ''('' # ow @ ''): '' @ msg"
    and ts: "length ts = 18" and ne: "tg \<noteq> []" "ow \<noteq> []"
    and mm: "m = [(0, length line), (0, 18), (19, 20), (21, 21 + length tg),
                (22 + length tg, 22 + length tg + length ow),
                (25 + length tg + length ow, length line)]"
    by blast
  have ll: "length line = 25 + length tg + length ow + length msg"
    by (subst line) (simp add: ts)
  have 1: "parse_match (m ! TIME) line LINE_NCHARS = Inr (take (18 - 0) (drop 0 line))"
    unfolding mm TIME_def using nul len ll by (simp add: parse_match_sub)
  have 2: "parse_match (m ! TAGTYPE) line LINE_NCHARS = Inr (take (20 - 19) (drop 19 line))"
    unfolding mm TAGTYPE_def using nul len ll by (simp add: parse_match_sub)
  have 3: "parse_match (m ! TAG) line LINE_NCHARS
           = Inr (take (21 + length tg - 21) (drop 21 line))"
    unfolding mm TAG_def using nul len ll by (simp add: parse_match_sub)
  have 4: "parse_match (m ! OWNER) line LINE_NCHARS
           = Inr (take (22 + length tg + length ow - (22 + length tg)) (drop (22 + length tg) line))"
    unfolding mm OWNER_def using nul len ll by (simp add: parse_match_sub)
  have 5: "parse_match (m ! MESSAGE) line LINE_NCHARS
           = Inr (take (length line - (25 + length tg + length ow))
                   (drop (25 + length tg + length ow) line))"
    unfolding mm MESSAGE_def using nul len ll by (simp add: parse_match_sub)
  have t1: "take (18 - 0) (drop 0 line) = ts"
    by (subst line) (simp add: ts)
  have t2: "take (20 - 19) (drop 19 line) = [lv]"
    by (subst line) (simp add: ts)
  have t3: "take (21 + length tg - 21) (drop 21 line) = tg"
    by (subst line) (simp add: ts)
  have t4: "take (22 + length tg + length ow - (22 + length tg)) (drop (22 + length tg) line) = ow"
  proof -
    have "line = (ts @ CHR '' '' # lv # CHR ''/'' # tg @ ''('') @ ow @ ''): '' @ msg"
      by (simp add: line)
    moreover have "length (ts @ CHR '' '' # lv # CHR ''/'' # tg @ ''('') = 22 + length tg"
      by (simp add: ts)
    ultimately have "take (length ow) (drop (22 + length tg) line) = ow"
      using take_drop_mid by metis
    then show ?thesis by simp
  qed
  have t5: "take (length line - (25 + length tg + length ow))
                   (drop (25 + length tg + length ow) line) = msg"
  proof -
    have "line = (ts @ CHR '' '' # lv # CHR ''/'' # tg @ CHR ''('' # ow @ ''): '') @ msg"
      by (simp add: line)
    moreover have "length (ts @ CHR '' '' # lv # CHR ''/'' # tg @ CHR ''('' # ow @ ''): '')
                   = 25 + length tg + length ow"
      by (simp add: ts)
    ultimately have "drop (25 + length tg + length ow) line = msg"
      using drop_prefix by metis
    then show ?thesis by (simp add: ll)
  qed
  show ?thesis
    using line ts ne 1 2 3 4 5 t1 t2 t3 t4 t5 by (intro exI[of _ ts] exI[of _ lv] exI[of _ tg] exI[of _ ow] exI[of _ msg]) simp
qed

subsection \<open>Reading lines, and the way back from the fields\<close>

lemma read_lines_Nil: "read_lines [] = []"
  by (subst read_lines.simps) (simp add: fgets_def)

lemma read_lines_Cons:
  "read_lines (c # cs) =
     takeWhile (\<lambda>c. c \<noteq> NUL) (take_line 1023 (c # cs)) #
     read_lines (drop (length (take_line 1023 (c # cs))) (c # cs))"
  by (subst read_lines.simps) (simp add: fgets_def LINE_NCHARS_def Let_def)

lemmas char_defs = NUL_def ESC_def NEWLINE_def TAB_def BACKSLASH_def

lemmas regexec_log_eval =
  regexec_log_def TIME_PATTERN_def is_digit_def is_upper_def tag_char_def owner_char_def
  char_defs

text \<open>
  C7. Every line that the worker reads and that matches the log pattern is the layout
  \<^verbatim>\<open><timestamp> <level>/<tag>(<owner>): <message>\<close> filled with the five fields that
  \<^verbatim>\<open>parse_match\<close> extracts from it: putting the fields back gives the line itself.
\<close>

theorem log_line_round_trip:
  assumes "line \<in> set (read_lines stream)" and "regexec_log line = Some m"
  shows "\<exists>time level tg owner message.
           parse_match (m ! TIME) line LINE_NCHARS = Inr time \<and>
           parse_match (m ! TAGTYPE) line LINE_NCHARS = Inr level \<and>
           parse_match (m ! TAG) line LINE_NCHARS = Inr tg \<and>
           parse_match (m ! OWNER) line LINE_NCHARS = Inr owner \<and>
           parse_match (m ! MESSAGE) line LINE_NCHARS = Inr message \<and>
           log_layout time level tg owner message = line"
proof -
  from read_lines_props[OF assms(1)] have "NUL \<notin> set line" "length line < LINE_NCHARS"
    by simp_all
  from regexec_log_fields[OF this assms(2)] obtain ts lv tg ow msg where
    "line = ts @ CHR '' '' # lv # CHR ''/'' # tg @ CHR ''('' # ow @ ''): '' @ msg"
    "parse_match (m ! TIME) line LINE_NCHARS = Inr ts"
    "parse_match (m ! TAGTYPE) line LINE_NCHARS = Inr [lv]"
    "parse_match (m ! TAG) line LINE_NCHARS = Inr tg"
    "parse_match (m ! OWNER) line LINE_NCHARS = Inr ow"
    "parse_match (m ! MESSAGE) line LINE_NCHARS = Inr msg"
    by blast
  moreover from this(1) have "log_layout ts [lv] tg ow msg = line"
    by (simp add: log_layout_def)
  ultimately show ?thesis by blast
qed

theorem log_line_round_trip_witness:
  "''01-02 03:04:05.678 W/Tag(42): hi'' @ [NEWLINE]
     \<in> set (read_lines (''01-02 03:04:05.678 W/Tag(42): hi'' @ [NEWLINE] @ ''rest'')) \<and>
   regexec_log (''01-02 03:04:05.678 W/Tag(42): hi'' @ [NEWLINE])
     = Some [(0, 33), (0, 18), (19, 20), (21, 24), (25, 27), (30, 33)] \<and>
   (\<exists>time level tg owner message.
      parse_match (0, 18) (''01-02 03:04:05.678 W/Tag(42): hi'' @ [NEWLINE]) LINE_NCHARS = Inr time \<and>
      parse_match (19, 20) (''01-02 03:04:05.678 W/Tag(42): hi'' @ [NEWLINE]) LINE_NCHARS = Inr level \<and>
      parse_match (21, 24) (''01-02 03:04:05.678 W/Tag(42): hi'' @ [NEWLINE]) LINE_NCHARS = Inr tg \<and>
      parse_match (25, 27) (''01-02 03:04:05.678 W/Tag(42): hi'' @ [NEWLINE]) LINE_NCHARS = Inr owner \<and>
      parse_match (30, 33) (''01-02 03:04:05.678 W/Tag(42): hi'' @ [NEWLINE]) LINE_NCHARS = Inr message \<and>
      log_layout time level tg owner message = ''01-02 03:04:05.678 W/Tag(42): hi'' @ [NEWLINE])"
proof -
  let ?l = "''01-02 03:04:05.678 W/Tag(42): hi'' @ [NEWLINE]"
  have h1: "?l \<in> set (read_lines (?l @ ''rest''))"
    by (simp add: read_lines_Cons read_lines_Nil char_defs)
  have h2: "regexec_log ?l = Some [(0, 33), (0, 18), (19, 20), (21, 24), (25, 27), (30, 33)]"
    by (simp add: regexec_log_eval)
  from log_line_round_trip[OF h1 h2] h1 h2 show ?thesis
    by (simp add: regex_match_defs)
qed

subsection \<open>What a step changes\<close>

lemma tag_color_cases:
  assumes "tag_color tg s = (c, s1)"
  shows "(tag_map s tg = Some c \<and> s1 = s\<lparr>stray_unlocks := stray_unlocks s + 1\<rparr>) \<or>
         (tag_map s tg = None \<and> c = tag_next_color s \<and>
          s1 = s\<lparr>tag_next_color :=
                    (if tag_next_color s + 1 = COLOR_NMAX then COLOR_RED else tag_next_color s + 1),
                  tag_map := (tag_map s)(tg \<mapsto> tag_next_color s)\<rparr>)"
  using assms
  by (auto simp: tag_color_def next_tag_color_def strmap_get_def strmap_add_def Let_def
           split: option.splits)

lemma logcat_line_InrD:
  assumes "logcat_line d l s = Inr s'"
  shows "(\<exists>msg. s' = s\<lparr>stderr := stderr s @ [msg]\<rparr>) \<or>
         (\<exists>tg c s1 rec. tag_color tg s = (c, s1) \<and> s' = s1\<lparr>stdout := stdout s1 @ [rec]\<rparr>)"
proof (cases "regexec_log l")
  case None
  with assms show ?thesis
    by (auto simp: logcat_line_def split: option.splits)
next
  case (Some m)
  with assms obtain tg rec where
      "s' = (snd (tag_color tg s))\<lparr>stdout := stdout (snd (tag_color tg s)) @ [rec]\<rparr>"
    by (auto simp: logcat_line_def ebind_Inr_iff split_beta split: option.splits)
  moreover have "tag_color tg s = (fst (tag_color tg s), snd (tag_color tg s))"
    by simp
  ultimately show ?thesis by blast
qed

lemma sprintf_bind:
  "ebind (sprintf n buf t) f =
     (if length buf + length t < n then f (buf @ t) else Inl BufferOverflow)"
  by (simp add: sprintf_def)

lemma color_ansi_valid: "c < COLOR_NMAX \<Longrightarrow> color_ansi c = Inr (color_ansi_table ! c)"
  by (simp add: color_ansi_def color_ansi_table_def COLOR_NMAX_def)

lemma logcat_line_matched:
  assumes heap: "device_heap s d = Some dev" and dc: "color dev < COLOR_NMAX"
    and m: "regexec_log line = Some m"
    and f: "parse_match (m ! TIME) line LINE_NCHARS = Inr ts"
           "parse_match (m ! TAGTYPE) line LINE_NCHARS = Inr lvl"
           "parse_match (m ! TAG) line LINE_NCHARS = Inr tg"
           "parse_match (m ! OWNER) line LINE_NCHARS = Inr ow"
           "parse_match (m ! MESSAGE) line LINE_NCHARS = Inr msg"
    and tc: "tag_color tg s = (c, s1)" and c: "c < COLOR_NMAX"
  shows "logcat_line d line s =
     (if length (log_record (color_ansi_table ! color dev) (name dev) ts ow
                   (color_ansi_table ! c) tg lvl msg) < LINE_NCHARS
      then Inr (s1\<lparr>stdout := stdout s1 @
                  [log_record (color_ansi_table ! color dev) (name dev) ts ow
                     (color_ansi_table ! c) tg lvl msg]\<rparr>)
      else Inl BufferOverflow)"
  unfolding logcat_line_def
  by (simp add: heap m f tc color_ansi_valid[OF dc] color_ansi_valid[OF c] sprintf_bind
        log_record_def)

lemma logcat_line_unmatched:
  assumes "device_heap s d = Some dev" "regexec_log line = None"
  shows "logcat_line d line s =
     Inr (s\<lparr>stderr := stderr s @
          [''Received line that did not match pattern: '' @ line @ ''.'' @ [NEWLINE]]\<rparr>)"
  using assms by (simp add: logcat_line_def)

lemma c_string_no_NUL: "c_string buf = Inr nm \<Longrightarrow> NUL \<notin> set nm"
  by (auto simp: c_string_def split: if_splits dest: set_takeWhileD)

lemma strcpy_c_string:
  assumes "NUL \<notin> set nm" "strcpy dest nm = Inr b"
  shows "c_string b = Inr nm"
proof -
  from assms(2) have b: "b = nm @ NUL # drop (length nm + 1) dest"
    by (auto simp: strcpy_def split: if_splits)
  have "takeWhile (\<lambda>c. c \<noteq> NUL) (nm @ NUL # drop (length nm + 1) dest)
        = nm @ takeWhile (\<lambda>c. c \<noteq> NUL) (NUL # drop (length nm + 1) dest)"
    by (rule takeWhile_append2) (use assms(1) in auto)
  then show ?thesis by (simp add: b c_string_def)
qed

lemma find_devices_line_InrD:
  assumes "find_devices_line l s = Inr s'"
  shows "s' = s \<or> (\<exists>msg. s' = s\<lparr>stderr := stderr s @ [msg]\<rparr>) \<or>
         (\<exists>nm. device_map s nm = None \<and>
            s' = s\<lparr>device_next_color :=
                     (if device_next_color s + 1 = COLOR_NMAX then COLOR_RED
                      else device_next_color s + 1),
                   device_heap := (device_heap s)(next_ptr s \<mapsto>
                      \<lparr>name = nm, fh = None, color = device_next_color s\<rparr>),
                   next_ptr := next_ptr s + 1,
                   device_map := (device_map s)(nm \<mapsto> next_ptr s),
                   threads := threads s @ [next_ptr s]\<rparr>)"
proof (cases "regexec_device l")
  case None
  with assms show ?thesis by (simp add: find_devices_line_def)
next
  case (Some m)
  show ?thesis
  proof (cases "snd (m ! 1) - fst (m ! 1) = 0")
    case True
    with assms Some show ?thesis by (auto simp: find_devices_line_def Let_def)
  next
    case False
    with assms Some obtain name_buf nm where
      nb: "c_string name_buf = Inr nm" and
      r: "(case strmap_get (device_map s) nm of
             Some _ \<Rightarrow> Inr s
           | None \<Rightarrow>
               ebind (strcpy (memset_zero SERIAL_NCHARS) nm) (\<lambda>dev_name_buf.
               ebind (c_string dev_name_buf) (\<lambda>dev_name.
               (case next_device_color s of
                  (c, s1) \<Rightarrow>
                    (let p = next_ptr s1;
                         dev = \<lparr>name = dev_name, fh = None, color = c\<rparr>;
                         s2 = s1\<lparr>device_heap := (device_heap s1)(p \<mapsto> dev),
                                 next_ptr := p + 1\<rparr>;
                         s3 = s2\<lparr>device_map := strmap_add (device_map s2) dev_name p\<rparr>
                     in Inr (s3\<lparr>threads := threads s3 @ [p]\<rparr>)))))) = Inr s'"
      by (auto simp: find_devices_line_def Let_def ebind_Inr_iff)
    show ?thesis
    proof (cases "device_map s nm")
      case (Some p)
      with r show ?thesis by (simp add: strmap_get_def)
    next
      case None
      note sc = strcpy_c_string[OF c_string_no_NUL[OF nb]]
      have "s' = s\<lparr>device_next_color :=
                     (if device_next_color s + 1 = COLOR_NMAX then COLOR_RED
                      else device_next_color s + 1),
                   device_heap := (device_heap s)(next_ptr s \<mapsto>
                      \<lparr>name = nm, fh = None, color = device_next_color s\<rparr>),
                   next_ptr := next_ptr s + 1,
                   device_map := (device_map s)(nm \<mapsto> next_ptr s),
                   threads := threads s @ [next_ptr s]\<rparr>"
        using r None
        by (auto simp: strmap_get_def ebind_Inr_iff next_device_color_def Let_def
              strmap_add_def dest!: sc)
      with None show ?thesis by blast
    qed
  qed
qed

lemma logcat_open_frame:
  "logcat_open popens r d dev s = (b, s') \<Longrightarrow>
     shutdown s' = shutdown s \<and> device_map s' = device_map s \<and> tag_map s' = tag_map s \<and>
     device_next_color s' = device_next_color s \<and> tag_next_color s' = tag_next_color s \<and>
     threads s' = threads s \<and> stdout s' = stdout s \<and> next_ptr s' = next_ptr s \<and>
     set (open_pipes s) \<subseteq> set (open_pipes s') \<and>
     (\<exists>h. device_heap s' = (device_heap s)(d \<mapsto> dev\<lparr>fh := h\<rparr>) \<and>
          (if b then \<exists>x. h = Some x \<and> x \<in> set (open_pipes s') else h = None))"
proof (induction popens r d dev s arbitrary: b s' rule: logcat_open.induct)
  case (1 popens retries d dev s)
  show ?case
  proof (cases "popens (retries + 1)")
    case True
    with "1.prems" show ?thesis
      by (subst (asm) logcat_open.simps) (auto simp: popen_def set_fh_def Let_def)
  next
    case False
    show ?thesis
    proof (cases "retries + 1 > RETRIES_NMAX")
      case True
      with False "1.prems" show ?thesis
        by (subst (asm) logcat_open.simps) (auto simp: popen_def set_fh_def Let_def)
    next
      case g: False
      let ?s3 = "(set_fh d dev None s)\<lparr>stderr := stderr (set_fh d dev None s) @
                    [''Failure to open device'' @ [NEWLINE]]\<rparr>"
      from False g "1.prems" have rec: "logcat_open popens (retries + 1) d dev ?s3 = (b, s')"
        by (subst (asm) logcat_open.simps) (simp add: popen_def Let_def)
      have "shutdown s' = shutdown ?s3 \<and> device_map s' = device_map ?s3 \<and> tag_map s' = tag_map ?s3 \<and>
     device_next_color s' = device_next_color ?s3 \<and> tag_next_color s' = tag_next_color ?s3 \<and>
     threads s' = threads ?s3 \<and> stdout s' = stdout ?s3 \<and> next_ptr s' = next_ptr ?s3 \<and>
     set (open_pipes ?s3) \<subseteq> set (open_pipes s') \<and>
     (\<exists>h. device_heap s' = (device_heap ?s3)(d \<mapsto> dev\<lparr>fh := h\<rparr>) \<and>
          (if b then \<exists>x. h = Some x \<and> x \<in> set (open_pipes s') else h = None))"
        using False g
        by (intro "1.IH"[OF _ _ _ _ _ _ rec]) (simp_all add: popen_def)
      then obtain h where
        fr: "shutdown s' = shutdown ?s3" "device_map s' = device_map ?s3"
          "tag_map s' = tag_map ?s3" "device_next_color s' = device_next_color ?s3"
          "tag_next_color s' = tag_next_color ?s3" "threads s' = threads ?s3"
          "stdout s' = stdout ?s3" "next_ptr s' = next_ptr ?s3"
          "set (open_pipes ?s3) \<subseteq> set (open_pipes s')"
        and h: "device_heap s' = (device_heap ?s3)(d \<mapsto> dev\<lparr>fh := h\<rparr>)"
          "if b then \<exists>x. h = Some x \<and> x \<in> set (open_pipes s') else h = None"
        by blast
      from h(1) have "device_heap s' = (device_heap s)(d \<mapsto> dev\<lparr>fh := h\<rparr>)"
        by (simp add: set_fh_def)
      with h(2) have ex: "\<exists>h. device_heap s' = (device_heap s)(d \<mapsto> dev\<lparr>fh := h\<rparr>) \<and>
          (if b then \<exists>x. h = Some x \<and> x \<in> set (open_pipes s') else h = None)"
        by blast
      from fr have "shutdown s' = shutdown s" "device_map s' = device_map s"
          "tag_map s' = tag_map s" "device_next_color s' = device_next_color s"
          "tag_next_color s' = tag_next_color s" "threads s' = threads s"
          "stdout s' = stdout s" "next_ptr s' = next_ptr s"
          "set (open_pipes s) \<subseteq> set (open_pipes s')"
        by (simp_all add: set_fh_def)
      with ex show ?thesis by blast
    qed
  qed
qed

lemma logcat_line_frame:
  assumes "logcat_line d l s = Inr s'"
  shows "device_heap s' = device_heap s \<and> device_map s' = device_map s \<and>
         open_pipes s' = open_pipes s \<and> shutdown s' = shutdown s \<and>
         device_next_color s' = device_next_color s \<and> threads s' = threads s \<and>
         next_ptr s' = next_ptr s \<and> next_handle s' = next_handle s"
  using logcat_line_InrD[OF assms] by (auto dest!: tag_color_cases)

lemma logcat_line_tags:
  assumes "logcat_line d l s = Inr s'"
  shows "(tag_map s' = tag_map s \<and> tag_next_color s' = tag_next_color s) \<or>
         (\<exists>tg. tag_map s tg = None \<and> tag_map s' = (tag_map s)(tg \<mapsto> tag_next_color s) \<and>
               tag_next_color s' =
                 (if tag_next_color s + 1 = COLOR_NMAX then COLOR_RED else tag_next_color s + 1))"
  using logcat_line_InrD[OF assms] by (auto dest!: tag_color_cases)

lemma logcat_loop_frame:
  "logcat_loop d ls s = Inr s' \<Longrightarrow>
     device_heap s' = device_heap s \<and> device_map s' = device_map s \<and>
     open_pipes s' = open_pipes s \<and> shutdown s' = shutdown s \<and>
     device_next_color s' = device_next_color s \<and> threads s' = threads s \<and>
     next_ptr s' = next_ptr s \<and> next_handle s' = next_handle s"
proof (induction ls arbitrary: s)
  case Nil
  then show ?case by simp
next
  case (Cons l ls)
  show ?case
  proof (cases "shutdown s")
    case True
    with Cons.prems show ?thesis by simp
  next
    case False
    with Cons.prems obtain s1 where l: "logcat_line d l s = Inr s1"
      and r: "logcat_loop d ls s1 = Inr s'"
      by (auto split: sum.splits)
    from logcat_line_frame[OF l] Cons.IH[OF r] show ?thesis by simp
  qed
qed

lemma logcat_start_frame:
  assumes "logcat_start d popens s = Inr (b, s')"
  shows "\<exists>dev h. device_heap s d = Some dev \<and>
     shutdown s' = shutdown s \<and> device_map s' = device_map s \<and> tag_map s' = tag_map s \<and>
     device_next_color s' = device_next_color s \<and> tag_next_color s' = tag_next_color s \<and>
     threads s' = threads s \<and> stdout s' = stdout s \<and> next_ptr s' = next_ptr s \<and>
     set (open_pipes s) \<subseteq> set (open_pipes s') \<and>
     device_heap s' = (device_heap s)(d \<mapsto> dev\<lparr>fh := h\<rparr>) \<and>
     (if b then \<exists>x. h = Some x \<and> x \<in> set (open_pipes s') else h = None)"
proof -
  from assms obtain dev where dev: "device_heap s d = Some dev"
    by (auto simp: logcat_start_def split: option.splits)
  define s0 where "s0 = set_fh d dev (fst (popen (popens 0) s)) (snd (popen (popens 0) s))"
  from assms dev have o: "logcat_open popens 0 d dev s0 = (b, s')"
    by (simp add: logcat_start_def s0_def split_beta)
  have s0: "shutdown s0 = shutdown s" "device_map s0 = device_map s" "tag_map s0 = tag_map s"
    "device_next_color s0 = device_next_color s" "tag_next_color s0 = tag_next_color s"
    "threads s0 = threads s" "stdout s0 = stdout s" "next_ptr s0 = next_ptr s"
    "set (open_pipes s) \<subseteq> set (open_pipes s0)"
    "\<And>x. (device_heap s0)(d \<mapsto> x) = (device_heap s)(d \<mapsto> x)"
    by (auto simp: s0_def set_fh_def popen_def)
  from logcat_open_frame[OF o] s0 dev show ?thesis
    by (auto simp del: fun_upd_apply)
qed

lemma logcat_cleanup_InrD:
  "logcat_cleanup d s = Inr s' \<Longrightarrow>
     \<exists>dev. device_heap s d = Some dev \<and>
       s' = s\<lparr>device_map := (device_map s)(name dev := None),
              device_heap := (device_heap s)(d := None)\<rparr>"
  by (auto simp: logcat_cleanup_def strmap_del_def split: option.splits)

subsection \<open>The invariant\<close>

lemma state_ok_main_init: "state_ok main_init"
  by (simp add: state_ok_def main_init_def Let_def strmap_add_def color_defs)

lemma state_ok_find_devices_line:
  assumes "state_ok s" "find_devices_line l s = Inr s'"
  shows "state_ok s'"
  using find_devices_line_InrD[OF assms(2)] assms(1)
  by (auto simp: state_ok_def mod_Suc color_defs split: if_splits)

lemma state_ok_logcat_start:
  assumes "state_ok s" "logcat_start d popens s = Inr (b, s')"
  shows "state_ok s'"
proof -
  from logcat_start_frame[OF assms(2)] obtain dev h where
    "device_heap s d = Some dev"
    "shutdown s' = shutdown s" "tag_map s' = tag_map s"
    "device_next_color s' = device_next_color s" "tag_next_color s' = tag_next_color s"
    "threads s' = threads s" "device_heap s' = (device_heap s)(d \<mapsto> dev\<lparr>fh := h\<rparr>)"
    by blast
  with assms(1) show ?thesis
    by (auto simp: state_ok_def)
qed

lemma state_ok_logcat_cleanup:
  assumes "state_ok s" "logcat_cleanup d s = Inr s'"
  shows "state_ok s'"
  using logcat_cleanup_InrD[OF assms(2)] assms(1)
  by (auto simp: state_ok_def split: if_splits)

lemma state_ok_logcat_line:
  assumes ok: "state_ok s" and l: "logcat_line d l s = Inr s'"
  shows "state_ok s'"
proof -
  note fr = logcat_line_frame[OF l]
  from logcat_line_tags[OF l] show ?thesis
  proof
    assume "tag_map s' = tag_map s \<and> tag_next_color s' = tag_next_color s"
    with ok fr show ?thesis by (simp add: state_ok_def)
  next
    assume "\<exists>tg. tag_map s tg = None \<and> tag_map s' = (tag_map s)(tg \<mapsto> tag_next_color s) \<and>
               tag_next_color s' =
                 (if tag_next_color s + 1 = COLOR_NMAX then COLOR_RED else tag_next_color s + 1)"
    then obtain tg where tg: "tag_map s tg = None"
      "tag_map s' = (tag_map s)(tg \<mapsto> tag_next_color s)"
      "tag_next_color s' =
                 (if tag_next_color s + 1 = COLOR_NMAX then COLOR_RED else tag_next_color s + 1)"
      by blast
    from ok have le: "tag_map main_init \<subseteq>\<^sub>m tag_map s" by (simp add: state_ok_def)
    with tg(1) have i: "tag_map main_init tg = None"
      by (cases "tag_map main_init tg") (auto simp: map_le_def dest!: bspec[where x=tg])
    have le': "tag_map main_init \<subseteq>\<^sub>m tag_map s'"
      unfolding tg(2) using le i by (auto simp: map_le_def)
    have ne: "tag_map s' \<noteq> tag_map main_init"
      using i tg(2) by (metis fun_upd_same option.distinct(1))
    from ok fr tg le' ne show ?thesis
      by (auto simp: state_ok_def color_defs split: if_splits)
  qed
qed

lemma state_ok_step:
  assumes "state_ok s" "step e s = Inr s'"
  shows "state_ok s'"
proof (cases e)
  case (DiscoverLine l)
  with assms show ?thesis by (simp add: state_ok_find_devices_line)
next
  case (WorkerStart d popens)
  with assms obtain b where "logcat_start d popens s = Inr (b, s')"
    by (auto simp: ebind_Inr_iff)
  with assms(1) show ?thesis by (rule state_ok_logcat_start)
next
  case (WorkerLine d l)
  with assms show ?thesis by (simp add: state_ok_logcat_line)
next
  case (WorkerCleanup d)
  with assms show ?thesis by (simp add: state_ok_logcat_cleanup)
qed

lemma state_ok_run_events:
  "state_ok s \<Longrightarrow> run_events evs s = Inr s' \<Longrightarrow> state_ok s'"
proof (induction evs arbitrary: s)
  case Nil
  then show ?case by simp
next
  case (Cons e evs)
  from Cons.prems(2) obtain s1 where "step e s = Inr s1" "run_events evs s1 = Inr s'"
    by (auto split: sum.splits)
  with Cons.IH state_ok_step[OF Cons.prems(1)] show ?case by blast
qed

lemma reachable_state_ok: "run_events evs main_init = Inr s \<Longrightarrow> state_ok s"
  using state_ok_main_init by (rule state_ok_run_events)

subsection \<open>The shutdown flag\<close>

lemma step_shutdown: "step e s = Inr s' \<Longrightarrow> shutdown s' = shutdown s"
proof (cases e)
  case (DiscoverLine l)
  assume "step e s = Inr s'"
  with DiscoverLine have "find_devices_line l s = Inr s'" by simp
  from find_devices_line_InrD[OF this] show ?thesis by auto
next
  case (WorkerStart d popens)
  assume "step e s = Inr s'"
  with WorkerStart obtain b where "logcat_start d popens s = Inr (b, s')"
    by (auto simp: ebind_Inr_iff)
  from logcat_start_frame[OF this] show ?thesis by blast
next
  case (WorkerLine d l)
  assume "step e s = Inr s'"
  with WorkerLine have "logcat_line d l s = Inr s'" by simp
  from logcat_line_frame[OF this] show ?thesis by simp
next
  case (WorkerCleanup d)
  assume "step e s = Inr s'"
  with WorkerCleanup have "logcat_cleanup d s = Inr s'" by simp
  from logcat_cleanup_InrD[OF this] show ?thesis by auto
qed

lemma run_events_shutdown: "run_events evs s = Inr s' \<Longrightarrow> shutdown s' = shutdown s"
proof (induction evs arbitrary: s)
  case Nil
  then show ?case by simp
next
  case (Cons e evs)
  from Cons.prems obtain s1 where "step e s = Inr s1" "run_events evs s1 = Inr s'"
    by (auto split: sum.splits)
  with Cons.IH step_shutdown show ?case by metis
qed

lemma find_devices_loop_shutdown:
  "find_devices_loop ls s = Inr s' \<Longrightarrow> shutdown s' = shutdown s"
proof (induction ls arbitrary: s)
  case Nil
  then show ?case by simp
next
  case (Cons l ls)
  from Cons.prems obtain s1 where a: "find_devices_line l s = Inr s1"
    and b: "find_devices_loop ls s1 = Inr s'"
    by (auto split: sum.splits)
  from find_devices_line_InrD[OF a] have "shutdown s1 = shutdown s" by auto
  with Cons.IH[OF b] show ?case by simp
qed

lemma find_android_devices_shutdown:
  "find_android_devices listing s = Inr s' \<Longrightarrow> shutdown s' = shutdown s"
  by (auto simp: find_android_devices_def popen_def dest!: find_devices_loop_shutdown)

lemma tag_step_shutdown: "shutdown (snd (tag_step w s)) = shutdown s"
  by (cases "w_at w")
     (auto simp: tag_step_def next_tag_color_def Let_def split: option.splits)

lemma run_find_devices_running:
  "\<not> shutdown s \<Longrightarrow> run_find_devices rounds s \<noteq> Some (Inr s')"
proof (induction rounds arbitrary: s)
  case Nil
  then show ?case by simp
next
  case (Cons r rounds)
  obtain listing evs where r: "r = (listing, evs)" by (cases r)
  show ?case
  proof (cases "ebind (find_android_devices listing s) (run_events evs)")
    case (Inl e)
    with Cons.prems r show ?thesis by simp
  next
    case (Inr s1)
    then obtain s0 where "find_android_devices listing s = Inr s0" "run_events evs s0 = Inr s1"
      by (auto simp: ebind_Inr_iff)
    with Cons.prems have "\<not> shutdown s1"
      by (simp add: find_android_devices_shutdown run_events_shutdown)
    from Cons.IH[OF this] Inr Cons.prems r show ?thesis by simp
  qed
qed

text \<open>
  C8. Nothing writes the flag \<^verbatim>\<open>shutdown\<close>: no step of the discovery thread or of a
  worker changes it, so it is false in every state the threads can reach from the start
  of \<^verbatim>\<open>main\<close>; the loop of \<^verbatim>\<open>run_find_devices\<close> never returns, and \<^verbatim>\<open>main\<close> never
  gets to its exit status 0.
\<close>

theorem shutdown_never_set:
  "(\<forall>e s s'. step e s = Inr s' \<longrightarrow> shutdown s' = shutdown s) \<and>
   (\<forall>w s. shutdown (snd (tag_step w s)) = shutdown s) \<and>
   \<not> shutdown main_init \<and>
   (\<forall>evs s. run_events evs main_init = Inr s \<longrightarrow> \<not> shutdown s) \<and>
   (\<forall>rounds s. run_find_devices rounds main_init \<noteq> Some (Inr s)) \<and>
   (\<forall>rounds. main rounds = None)"
proof (intro conjI allI impI)
  fix e s s' assume "step e s = Inr s'"
  then show "shutdown s' = shutdown s" by (rule step_shutdown)
next
  fix w s show "shutdown (snd (tag_step w s)) = shutdown s" by (rule tag_step_shutdown)
next
  show i: "\<not> shutdown main_init" by (simp add: main_init_simps)
  fix evs s assume "run_events evs main_init = Inr s"
  from run_events_shutdown[OF this] i show "\<not> shutdown s" by simp
next
  fix rounds s
  show "run_find_devices rounds main_init \<noteq> Some (Inr s)"
    by (rule run_find_devices_running) (simp add: main_init_simps)
next
  fix rounds
  have "\<And>s. run_find_devices rounds main_init \<noteq> Some (Inr s)"
    by (rule run_find_devices_running) (simp add: main_init_simps)
  then show "main rounds = None"
    by (auto simp: main_def split: option.splits sum.splits)
qed

subsection \<open>Discovering a device\<close>

lemma xdigit_not_NUL: "is_xdigit c \<Longrightarrow> c \<noteq> NUL"
  by (auto simp: is_xdigit_def NUL_def)

lemma regexec_device_match:
  assumes "list_all is_xdigit ident" "ident \<noteq> []"
  shows "regexec_device (ident @ TAB # ''device'' @ rest)
         = Some [(0, length ident + 7 + length rest), (0, length ident)]"
proof -
  let ?r = "TAB # ''device'' @ rest"
  have x: "\<And>c. c \<in> set ident \<Longrightarrow> is_xdigit c"
    using assms(1) by (simp add: list_all_iff)
  have nt: "\<not> is_xdigit TAB" by (simp add: is_xdigit_def TAB_def)
  have t: "takeWhile is_xdigit (ident @ ?r) = ident"
    using x nt by simp
  have d: "dropWhile is_xdigit (ident @ ?r) = ?r"
    using x nt by simp
  have b: "takeWhile is_blank ?r = [TAB]" "dropWhile is_blank ?r = ''device'' @ rest"
    by (simp_all add: is_blank_def TAB_def)
  show ?thesis
    unfolding regexec_device_def t d b Let_def using assms(2) by simp
qed

lemma find_devices_line_ident:
  assumes "list_all is_xdigit ident" "ident \<noteq> []"
  shows "find_devices_line (ident @ TAB # ''device'' @ rest) s =
     (if DEVICE_NAME_NCHARS < length ident then Inl BufferOverflow
      else if length ident = DEVICE_NAME_NCHARS then Inl NotTerminated
      else (case device_map s ident of
              Some p \<Rightarrow> Inr s
            | None \<Rightarrow>
                Inr (s\<lparr>device_next_color :=
                         (if device_next_color s + 1 = COLOR_NMAX then COLOR_RED
                          else device_next_color s + 1),
                       device_heap := (device_heap s)(next_ptr s \<mapsto>
                          \<lparr>name = ident, fh = None, color = device_next_color s\<rparr>),
                       next_ptr := next_ptr s + 1,
                       device_map := (device_map s)(ident \<mapsto> next_ptr s),
                       threads := threads s @ [next_ptr s]\<rparr>)))"
proof -
  let ?l = "ident @ TAB # ''device'' @ rest"
  let ?n = "length ident"
  note m = regexec_device_match[OF assms, of rest]
  have nn: "NUL \<notin> set ident"
    using assms(1) xdigit_not_NUL by (auto simp: list_all_iff)
  have cp: "strncpy (memset_zero DEVICE_NAME_NCHARS) (drop 0 ?l) ?n =
        (if DEVICE_NAME_NCHARS < ?n then Inl BufferOverflow
         else Inr (ident @ replicate (DEVICE_NAME_NCHARS - ?n) NUL))"
    by (simp add: strncpy_def memset_zero_def)
  show ?thesis
  proof (cases "DEVICE_NAME_NCHARS < ?n")
    case True
    with m cp assms(2) show ?thesis
      by (simp add: find_devices_line_def Let_def)
  next
    case False
    show ?thesis
    proof (cases "?n = DEVICE_NAME_NCHARS")
      case True
      with nn have "c_string (ident @ replicate (DEVICE_NAME_NCHARS - ?n) NUL) = Inl NotTerminated"
        by (simp add: c_string_def)
      with m cp assms(2) True show ?thesis
        by (simp add: find_devices_line_def Let_def DEVICE_NAME_NCHARS_def)
    next
      case ne: False
      with False have lt: "?n < DEVICE_NAME_NCHARS" by simp
      then have cs: "c_string (ident @ replicate (DEVICE_NAME_NCHARS - ?n) NUL) = Inr ident"
        using nn by (simp add: c_string_padded)
      have "strcpy (memset_zero SERIAL_NCHARS) ident
            = Inr (ident @ NUL # drop (?n + 1) (memset_zero SERIAL_NCHARS))"
        using lt by (simp add: strcpy_def memset_zero_def DEVICE_NAME_NCHARS_def SERIAL_NCHARS_def)
      moreover from strcpy_c_string[OF nn this]
      have "c_string (ident @ NUL # drop (?n + 1) (memset_zero SERIAL_NCHARS)) = Inr ident" .
      ultimately show ?thesis
        using m cp assms(2) False ne cs
        by (simp add: find_devices_line_def Let_def strmap_get_def strmap_add_def
              next_device_color_def split: option.splits)
    qed
  qed
qed

lemma abc123_xdigit: "list_all is_xdigit ''ABC123''" "''ABC123'' \<noteq> []"
  by (simp_all add: is_xdigit_def)

lemma find_devices_line_abc123:
  "find_devices_line (''ABC123'' @ TAB # ''device'' @ [NEWLINE]) main_init =
     Inr (main_init\<lparr>device_next_color := COLOR_GREEN,
            device_heap := [0 \<mapsto> \<lparr>name = ''ABC123'', fh = None, color = COLOR_RED\<rparr>],
            next_ptr := 1,
            device_map := [''ABC123'' \<mapsto> 0],
            threads := [0]\<rparr>)"
  using find_devices_line_ident[OF abc123_xdigit, of "[NEWLINE]" main_init]
  by (simp add: main_init_simps DEVICE_NAME_NCHARS_def color_defs)

subsection \<open>Identifiers that do not fit, and a log that does not open\<close>

lemma take_line_whole:
  "NEWLINE \<notin> set xs \<Longrightarrow> length xs < k \<Longrightarrow> take_line k (xs @ [NEWLINE]) = xs @ [NEWLINE]"
  by (induction xs arbitrary: k) auto

lemma read_lines_single:
  assumes "NEWLINE \<notin> set xs" "NUL \<notin> set xs" "length xs < 1023"
  shows "read_lines (xs @ [NEWLINE]) = [xs @ [NEWLINE]]"
proof -
  have tl: "take_line 1023 (xs @ [NEWLINE]) = xs @ [NEWLINE]"
    using assms by (simp add: take_line_whole)
  have tw: "takeWhile (\<lambda>c. c \<noteq> NUL) (xs @ [NEWLINE]) = xs @ [NEWLINE]"
    using assms(2) by (auto simp: char_defs)
  have "fgets LINE_NCHARS (xs @ [NEWLINE]) = Some (xs @ [NEWLINE], [])"
    by (simp add: fgets_def LINE_NCHARS_def tl tw Let_def)
  then show ?thesis
    by (subst read_lines.simps) (simp add: read_lines_Nil)
qed

lemma replicate_A_xdigit: "list_all is_xdigit (replicate n (CHR ''A''))"
  by (simp add: list_all_iff is_xdigit_def)

text \<open>
  C10. The copy of an identifier should stay within the array it is copied to. The
  identifier of a listing line is copied into \<^verbatim>\<open>name\<close>, an array of 64 bytes, by
  \<^verbatim>\<open>strncpy\<close> with the length of the identifier as its bound. A line with an
  identifier of 65 hexadecimal digits matches the pattern, and the copy writes 65 bytes,
  past the end of the array; with 64 digits the copy fills the array and leaves it
  without a terminating NUL, so that the lookup reads past its end.
\<close>

theorem device_name_overflow:
  "DEVICE_NAME_NCHARS = 64 \<and>
   read_lines (replicate 65 (CHR ''A'') @ TAB # ''device'' @ [NEWLINE])
     = [replicate 65 (CHR ''A'') @ TAB # ''device'' @ [NEWLINE]] \<and>
   regexec_device (replicate 65 (CHR ''A'') @ TAB # ''device'' @ [NEWLINE])
     = Some [(0, 73), (0, 65)] \<and>
   find_devices_line (replicate 65 (CHR ''A'') @ TAB # ''device'' @ [NEWLINE]) s
     = Inl BufferOverflow \<and>
   regexec_device (replicate 64 (CHR ''A'') @ TAB # ''device'' @ [NEWLINE])
     = Some [(0, 72), (0, 64)] \<and>
   find_devices_line (replicate 64 (CHR ''A'') @ TAB # ''device'' @ [NEWLINE]) s
     = Inl NotTerminated"
proof (intro conjI)
  show "DEVICE_NAME_NCHARS = 64" by (simp add: DEVICE_NAME_NCHARS_def)
  show "read_lines (replicate 65 (CHR ''A'') @ TAB # ''device'' @ [NEWLINE])
     = [replicate 65 (CHR ''A'') @ TAB # ''device'' @ [NEWLINE]]"
    using read_lines_single[of "replicate 65 (CHR ''A'') @ TAB # ''device''"]
    by (simp add: char_defs)
  show "regexec_device (replicate 65 (CHR ''A'') @ TAB # ''device'' @ [NEWLINE])
     = Some [(0, 73), (0, 65)]"
    using regexec_device_match[OF replicate_A_xdigit, of 65 "[NEWLINE]"] by simp
  show "find_devices_line (replicate 65 (CHR ''A'') @ TAB # ''device'' @ [NEWLINE]) s
     = Inl BufferOverflow"
    using find_devices_line_ident[OF replicate_A_xdigit, of 65 "[NEWLINE]" s]
    by (simp add: DEVICE_NAME_NCHARS_def)
  show "regexec_device (replicate 64 (CHR ''A'') @ TAB # ''device'' @ [NEWLINE])
     = Some [(0, 72), (0, 64)]"
    using regexec_device_match[OF replicate_A_xdigit, of 64 "[NEWLINE]"] by simp
  show "find_devices_line (replicate 64 (CHR ''A'') @ TAB # ''device'' @ [NEWLINE]) s
     = Inl NotTerminated"
    using find_devices_line_ident[OF replicate_A_xdigit, of 64 "[NEWLINE]" s]
    by (simp add: DEVICE_NAME_NCHARS_def)
qed

lemma logcat_open_all_fail:
  "\<forall>k. retries < k \<and> k \<le> Suc RETRIES_NMAX \<longrightarrow> \<not> popens k \<Longrightarrow> retries \<le> RETRIES_NMAX \<Longrightarrow>
   fst (logcat_open popens retries d dev s) = False"
proof (induction popens retries d dev s rule: logcat_open.induct)
  case (1 popens retries d dev s)
  from "1.prems" have f: "\<not> popens (retries + 1)" by simp
  show ?case
  proof (cases "retries + 1 > RETRIES_NMAX")
    case True
    with f show ?thesis
      by (subst logcat_open.simps) (simp add: popen_def Let_def)
  next
    case False
    let ?s3 = "(set_fh d dev None s)\<lparr>stderr := stderr (set_fh d dev None s) @
                    [''Failure to open device'' @ [NEWLINE]]\<rparr>"
    have p: "(None, s) = popen (popens (retries + 1)) s"
      using f by (simp add: popen_def)
    have "fst (logcat_open popens (retries + 1) d dev ?s3) = False"
      using "1.IH"[OF p refl refl refl refl] False "1.prems" by auto
    with f False show ?thesis
      by (subst logcat_open.simps) (simp add: popen_def Let_def)
  qed
qed

lemma run_logcat_gives_up:
  assumes dev: "device_heap s d = Some dev"
    and fail: "\<forall>k. k \<le> Suc RETRIES_NMAX \<longrightarrow> \<not> popens k"
  shows "\<exists>s'. run_logcat d popens stream s = Inr s' \<and> device_map s' = device_map s \<and>
           stdout s' = stdout s \<and> device_heap s' = (device_heap s)(d \<mapsto> dev\<lparr>fh := None\<rparr>) \<and>
           threads s' = threads s"
proof -
  obtain b s1 where st: "logcat_start d popens s = Inr (b, s1)"
    using dev by (cases "logcat_open popens 0 d dev (set_fh d dev (fst (popen (popens 0) s)) (snd (popen (popens 0) s)))")
      (simp add: logcat_start_def split_beta)
  have "b = fst (logcat_open popens 0 d dev (set_fh d dev (fst (popen (popens 0) s)) (snd (popen (popens 0) s))))"
    using st dev by (simp add: logcat_start_def split_beta)
  also have "\<dots> = False"
    using fail by (intro logcat_open_all_fail) auto
  finally have b: "b = False" .
  from logcat_start_frame[OF st] dev b have
    "device_map s1 = device_map s" "stdout s1 = stdout s" "threads s1 = threads s"
    "device_heap s1 = (device_heap s)(d \<mapsto> dev\<lparr>fh := None\<rparr>)"
    by auto
  moreover have "run_logcat d popens stream s = Inr s1"
    using st b by (simp add: run_logcat_def)
  ultimately show ?thesis by blast
qed

text \<open>
  C2. A worker that cannot open its log should end without reading and leave no entry
  of its device behind. The device \<open>ABC123\<close> is discovered and its worker started;
  every call of \<^verbatim>\<open>popen\<close> fails. After the 11th failure in the loop the worker leaves
  \<^verbatim>\<open>run_logcat\<close> by the \<^verbatim>\<open>return\<close> inside the loop, whatever the log would have
  held: it has written no record, but the entry of \<open>ABC123\<close> is still in the device
  map and the device is still allocated, so the next listing with \<open>ABC123\<close> starts
  no worker.
\<close>

theorem retry_exhaustion_keeps_entry:
  "ebind (find_devices_line (''ABC123'' @ TAB # ''device'' @ [NEWLINE]) main_init) (\<lambda>s.
   ebind (run_logcat 0 (\<lambda>k. False) stream s) (\<lambda>s'.
     Inr (device_map s' ''ABC123'', device_heap s' 0, stdout s', threads s',
          find_devices_line (''ABC123'' @ TAB # ''device'' @ [NEWLINE]) s' = Inr s')))
   = Inr (Some 0, Some \<lparr>name = ''ABC123'', fh = None, color = COLOR_RED\<rparr>, [], [0], True)"
proof -
  let ?s = "main_init\<lparr>device_next_color := COLOR_GREEN,
            device_heap := [0 \<mapsto> \<lparr>name = ''ABC123'', fh = None, color = COLOR_RED\<rparr>],
            next_ptr := 1,
            device_map := [''ABC123'' \<mapsto> 0],
            threads := [0]\<rparr>"
  have "device_heap ?s 0 = Some \<lparr>name = ''ABC123'', fh = None, color = COLOR_RED\<rparr>"
    by simp
  from run_logcat_gives_up[OF this, of "\<lambda>k. False" stream]
  obtain s' where r: "run_logcat 0 (\<lambda>k. False) stream ?s = Inr s'"
    and s': "device_map s' = device_map ?s" "stdout s' = stdout ?s"
      "device_heap s' = (device_heap ?s)(0 \<mapsto> \<lparr>name = ''ABC123'', fh = None, color = COLOR_RED\<rparr>\<lparr>fh := None\<rparr>)"
      "threads s' = threads ?s"
    by auto
  have "find_devices_line (''ABC123'' @ TAB # ''device'' @ [NEWLINE]) s' = Inr s'"
    using find_devices_line_ident[OF abc123_xdigit, of "[NEWLINE]" s'] s'(1)
    by (simp add: DEVICE_NAME_NCHARS_def)
  with r s' show ?thesis
    unfolding find_devices_line_abc123
    by (simp add: main_init_simps)
qed

subsection \<open>The length of a record\<close>

lemma regexec_log_match:
  assumes "atoms_match TIME_PATTERN ts" "is_upper lv" "tg \<noteq> []" "list_all tag_char tg"
    "ow \<noteq> []" "list_all owner_char ow"
  shows "regexec_log (ts @ CHR '' '' # lv # CHR ''/'' # tg @ CHR ''('' # ow @ ''): '' @ msg)
         = Some [(0, 25 + length tg + length ow + length msg), (0, 18), (19, 20),
                 (21, 21 + length tg), (22 + length tg, 22 + length tg + length ow),
                 (25 + length tg + length ow, 25 + length tg + length ow + length msg)]"
proof -
  let ?r3 = "''): '' @ msg"
  let ?r2 = "CHR ''('' # ow @ ?r3"
  let ?r1 = "tg @ ?r2"
  let ?line = "ts @ CHR '' '' # lv # CHR ''/'' # ?r1"
  from assms(1) have l: "length ts = 18"
    by (drule_tac atoms_match_length) (simp add: TIME_PATTERN_def)
  have tk: "take 18 ?line = ts" "drop 18 ?line = CHR '' '' # lv # CHR ''/'' # ?r1"
    using l by simp_all
  have t: "\<And>c. c \<in> set tg \<Longrightarrow> tag_char c" "\<And>c. c \<in> set ow \<Longrightarrow> owner_char c"
    using assms(4,6) by (simp_all add: list_all_iff)
  have n: "\<not> tag_char (CHR ''('')" "\<not> owner_char (CHR '')'')"
    by (simp_all add: tag_char_def owner_char_def)
  show ?thesis
    unfolding regexec_log_def tk
    using assms(1,2,3,5) l t n by (simp add: Let_def)
qed

lemma length_show_left [simp]: "length (show_left w txt) = w"
  by (simp add: show_left_def)

lemma color_ansi_table_range:
  "c < COLOR_NMAX \<Longrightarrow> 10 \<le> color_ansi_table ! c \<and> color_ansi_table ! c < 100"
  by (auto simp: color_ansi_table_def COLOR_NMAX_def nth_Cons')

lemma length_show_dec2:
  assumes "10 \<le> n" "n < 100"
  shows "length (show_dec n) = 2"
proof -
  from assms have "n div 10 < 10" by simp
  then have "show_dec (n div 10) = [''0123456789'' ! (n div 10)]"
    by (subst show_dec.simps) simp
  with assms show ?thesis
    by (subst show_dec.simps) simp
qed

lemma length_log_record:
  assumes "dc < COLOR_NMAX" "tc < COLOR_NMAX"
  shows "length (log_record (color_ansi_table ! dc) nm ts ow (color_ansi_table ! tc) tg lvl msg)
         = 92 + length ts + length ow + length (level_badge lvl) + length msg"
  using color_ansi_table_range[OF assms(1)] color_ansi_table_range[OF assms(2)]
  by (simp add: log_record_def fmt_device_def fmt_time_def fmt_owner_def fmt_tag_def
        fmt_message_def length_show_dec2)

subsection \<open>Known tags\<close>

lemma tag_color_valid:
  assumes "state_ok s"
  shows "fst (tag_color tg s) < COLOR_NMAX"
proof -
  obtain c s1 where t: "tag_color tg s = (c, s1)" by (cases "tag_color tg s")
  from tag_color_cases[OF t] assms have "c < COLOR_NMAX"
    by (auto simp: state_ok_def)
  with t show ?thesis by simp
qed

lemma tag_color_known:
  "tag_map s tg = Some c \<Longrightarrow> tag_color tg s = (c, s\<lparr>stray_unlocks := stray_unlocks s + 1\<rparr>)"
  by (simp add: tag_color_def strmap_get_def)

lemma state_ok_seed:
  assumes "state_ok s" "tag_map main_init tg = Some c"
  shows "tag_map s tg = Some c"
  using assms by (auto simp: state_ok_def map_le_def dom_def)

lemma main_init_tags:
  "tag_map main_init ''dalvikvm'' = Some COLOR_BLUE"
  "tag_map main_init ''Process'' = Some COLOR_BLUE"
  "tag_map main_init ''ActivityManager'' = Some COLOR_CYAN"
  "tag_map main_init ''ActivityThread'' = Some COLOR_CYAN"
  "dom (tag_map main_init) = {''dalvikvm'', ''Process'', ''ActivityManager'', ''ActivityThread''}"
  by (auto simp: main_init_def Let_def strmap_add_def split: if_splits)

lemmas parse_match_eval =
  parse_match_def strncpy_def memset_zero_def c_string_def LINE_NCHARS_def NUL_def

lemma take_line_all:
  "NEWLINE \<notin> set xs \<Longrightarrow> length xs \<le> k \<Longrightarrow> take_line k xs = xs"
  by (induction xs arbitrary: k) auto

lemma read_lines_last:
  assumes "NEWLINE \<notin> set xs" "NUL \<notin> set xs" "length xs < 1024" "xs \<noteq> []"
  shows "read_lines xs = [xs]"
proof -
  have tl: "take_line 1023 xs = xs"
    using assms by (simp add: take_line_all)
  have tw: "takeWhile (\<lambda>c. c \<noteq> NUL) xs = xs"
    using assms(2) by (auto simp: char_defs)
  have "fgets LINE_NCHARS xs = Some (xs, [])"
    using assms(4) by (simp add: fgets_def LINE_NCHARS_def tl tw Let_def)
  then show ?thesis
    by (subst read_lines.simps) (simp add: read_lines_Nil)
qed

subsection \<open>The bytes of a record\<close>

lemma replicate_numeral: "replicate (numeral k) x = x # replicate (pred_numeral k) x"
  by (simp add: numeral_eq_Suc)

lemma show_dec_two_digits:
  "show_dec 31 = ''31''" "show_dec 32 = ''32''" "show_dec 33 = ''33''" "show_dec 34 = ''34''"
  "show_dec 35 = ''35''" "show_dec 36 = ''36''" "show_dec 91 = ''91''" "show_dec 92 = ''92''"
  "show_dec 93 = ''93''" "show_dec 94 = ''94''" "show_dec 95 = ''95''" "show_dec 96 = ''96''"
  by (simp_all add: show_dec.simps)

lemma show_dec_ansi:
  assumes "c < COLOR_NMAX"
  shows "show_dec (color_ansi_table ! c) = [''31'', ''32'', ''33'', ''34'', ''35'', ''36'', ''91'', ''92'', ''93'', ''94'', ''95'', ''96''] ! c"
proof -
  from assms have "c = 0 \<or> c = 1 \<or> c = 2 \<or> c = 3 \<or> c = 4 \<or> c = 5 \<or> c = 6 \<or> c = 7 \<or>
      c = 8 \<or> c = 9 \<or> c = 10 \<or> c = 11"
    unfolding COLOR_NMAX_def by arith
  then show ?thesis
    by (elim disjE) (simp_all add: color_ansi_table_def show_dec_two_digits)
qed

lemma activity_manager_bytes:
  assumes "c < COLOR_NMAX"
  shows "log_record (color_ansi_table ! c) nm ''08-14 10:22:01.123'' ''1234'' 36
           ''ActivityManager'' ''I'' (''Starting activity'' @ nl)
         = ESC # ''['' @ [''31'', ''32'', ''33'', ''34'', ''35'', ''36'', ''91'', ''92'', ''93'', ''94'', ''95'', ''96''] ! c @ ''m'' @
           take 16 nm @ replicate (16 - length nm) (CHR '' '') @ ESC # ''[0m '' @
           ESC # ''[34m08-14 10:22:01.123'' @ ESC # ''[0m '' @
           ESC # ''[30;100m1234'' @ ESC # ''[0m '' @
           ESC # ''[36mActivityManager     '' @ ESC # ''[0m '' @
           ESC # ''[30;42m I '' @ ESC # ''[0m '' @
           ESC # ''[1;30mStarting activity'' @ nl @ ESC # ''[0m''"
  by (simp add: log_record_def fmt_device_def fmt_time_def fmt_owner_def fmt_tag_def
        fmt_message_def show_left_def level_badge_def show_dec_ansi[OF assms]
        show_dec_two_digits replicate_numeral)

text \<open>
  C5. In every state the threads can reach, the line
  \<^verbatim>\<open>08-14 10:22:01.123 I/ActivityManager(1234): Starting activity\<close> matches the log
  pattern, its five fields are the timestamp \<^verbatim>\<open>08-14 10:22:01.123\<close>, the level
  \<^verbatim>\<open>I\<close>, the tag \<^verbatim>\<open>ActivityManager\<close>, the owner \<^verbatim>\<open>1234\<close> and the message
  \<^verbatim>\<open>Starting activity\<close>, and the worker of any device writes the record of these
  fields with the tag in cyan, the color the tag was given at the start: the bytes
  written are the name of the device in the color of the device, then the timestamp, the
  owner, then \<^verbatim>\<open>ESC[36m\<close>, the tag filled up to twenty columns and \<^verbatim>\<open>ESC[0m\<close>, then the
  badge of the level and the message. The worker reads the line as it stands when the
  stream ends after it. When a newline follows, \<^verbatim>\<open>fgets\<close> keeps it, the pattern is
  matched without \<^verbatim>\<open>REG_NEWLINE\<close>, and the newline is the last byte of the message;
  the other four fields and the bytes before the message are the same. The tag is known,
  so each of the two lines takes the \<^verbatim>\<open>else\<close> branch of line 436 once.
\<close>

theorem activity_manager_line:
  assumes "run_events evs main_init = Inr s" and "device_heap s d = Some dev"
  shows "read_lines ''08-14 10:22:01.123 I/ActivityManager(1234): Starting activity'' = [''08-14 10:22:01.123 I/ActivityManager(1234): Starting activity''] \<and>
         regexec_log ''08-14 10:22:01.123 I/ActivityManager(1234): Starting activity''
           = Some [(0, 61), (0, 18), (19, 20), (21, 36), (37, 41), (44, 61)] \<and>
         parse_match (0, 18) ''08-14 10:22:01.123 I/ActivityManager(1234): Starting activity''
           LINE_NCHARS = Inr ''08-14 10:22:01.123'' \<and>
         parse_match (19, 20) ''08-14 10:22:01.123 I/ActivityManager(1234): Starting activity''
           LINE_NCHARS = Inr ''I'' \<and>
         parse_match (21, 36) ''08-14 10:22:01.123 I/ActivityManager(1234): Starting activity''
           LINE_NCHARS = Inr ''ActivityManager'' \<and>
         parse_match (37, 41) ''08-14 10:22:01.123 I/ActivityManager(1234): Starting activity''
           LINE_NCHARS = Inr ''1234'' \<and>
         parse_match (44, 61) ''08-14 10:22:01.123 I/ActivityManager(1234): Starting activity''
           LINE_NCHARS = Inr ''Starting activity'' \<and>
         tag_map s ''ActivityManager'' = Some COLOR_CYAN \<and>
         color_ansi COLOR_CYAN = Inr 36 \<and>
         logcat_line d ''08-14 10:22:01.123 I/ActivityManager(1234): Starting activity'' s
           = Inr (s\<lparr>stray_unlocks := stray_unlocks s + 1,
                    stdout := stdout s @
                      [ESC # ''['' @ [''31'', ''32'', ''33'', ''34'', ''35'', ''36'', ''91'', ''92'', ''93'', ''94'', ''95'', ''96''] ! color dev @ ''m'' @
                       take 16 (name dev) @ replicate (16 - length (name dev)) (CHR '' '') @ ESC # ''[0m '' @
                       ESC # ''[34m08-14 10:22:01.123'' @ ESC # ''[0m '' @
                       ESC # ''[30;100m1234'' @ ESC # ''[0m '' @
                       ESC # ''[36mActivityManager     '' @ ESC # ''[0m '' @
                       ESC # ''[30;42m I '' @ ESC # ''[0m '' @
                       ESC # ''[1;30mStarting activity'' @ ESC # ''[0m'']\<rparr>) \<and>
         read_lines (''08-14 10:22:01.123 I/ActivityManager(1234): Starting activity'' @ [NEWLINE])
           = [''08-14 10:22:01.123 I/ActivityManager(1234): Starting activity'' @ [NEWLINE]] \<and>
         regexec_log (''08-14 10:22:01.123 I/ActivityManager(1234): Starting activity'' @ [NEWLINE])
           = Some [(0, 62), (0, 18), (19, 20), (21, 36), (37, 41), (44, 62)] \<and>
         parse_match (0, 18) (''08-14 10:22:01.123 I/ActivityManager(1234): Starting activity'' @ [NEWLINE])
           LINE_NCHARS = Inr ''08-14 10:22:01.123'' \<and>
         parse_match (19, 20) (''08-14 10:22:01.123 I/ActivityManager(1234): Starting activity'' @ [NEWLINE])
           LINE_NCHARS = Inr ''I'' \<and>
         parse_match (21, 36) (''08-14 10:22:01.123 I/ActivityManager(1234): Starting activity'' @ [NEWLINE])
           LINE_NCHARS = Inr ''ActivityManager'' \<and>
         parse_match (37, 41) (''08-14 10:22:01.123 I/ActivityManager(1234): Starting activity'' @ [NEWLINE])
           LINE_NCHARS = Inr ''1234'' \<and>
         parse_match (44, 62) (''08-14 10:22:01.123 I/ActivityManager(1234): Starting activity'' @ [NEWLINE])
           LINE_NCHARS = Inr (''Starting activity'' @ [NEWLINE]) \<and>
         logcat_line d (''08-14 10:22:01.123 I/ActivityManager(1234): Starting activity'' @ [NEWLINE]) s
           = Inr (s\<lparr>stray_unlocks := stray_unlocks s + 1,
                    stdout := stdout s @
                      [ESC # ''['' @ [''31'', ''32'', ''33'', ''34'', ''35'', ''36'', ''91'', ''92'', ''93'', ''94'', ''95'', ''96''] ! color dev @ ''m'' @
                       take 16 (name dev) @ replicate (16 - length (name dev)) (CHR '' '') @ ESC # ''[0m '' @
                       ESC # ''[34m08-14 10:22:01.123'' @ ESC # ''[0m '' @
                       ESC # ''[30;100m1234'' @ ESC # ''[0m '' @
                       ESC # ''[36mActivityManager     '' @ ESC # ''[0m '' @
                       ESC # ''[30;42m I '' @ ESC # ''[0m '' @
                       ESC # ''[1;30mStarting activity'' @ NEWLINE # ESC # ''[0m'']\<rparr>)"
proof -
  let ?l = "''08-14 10:22:01.123 I/ActivityManager(1234): Starting activity''"
  let ?m = "[(0, 61), (0, 18), (19, 20), (21, 36), (37, 41), (44, 61)] :: (nat \<times> nat) list"
  let ?m' = "[(0, 62), (0, 18), (19, 20), (21, 36), (37, 41), (44, 62)] :: (nat \<times> nat) list"
  let ?s1 = "s\<lparr>stray_unlocks := stray_unlocks s + 1\<rparr>"
  from reachable_state_ok[OF assms(1)] have ok: "state_ok s" .
  have r: "read_lines ?l = [?l]"
    by (rule read_lines_last) (simp_all add: char_defs)
  have r': "read_lines (?l @ [NEWLINE]) = [?l @ [NEWLINE]]"
    by (rule read_lines_single) (simp_all add: char_defs)
  have m: "regexec_log ?l = Some ?m"
    by (simp add: regexec_log_eval)
  have m': "regexec_log (?l @ [NEWLINE]) = Some ?m'"
    by (simp add: regexec_log_eval)
  have f: "parse_match (?m ! TIME) ?l LINE_NCHARS = Inr ''08-14 10:22:01.123''"
    "parse_match (?m ! TAGTYPE) ?l LINE_NCHARS = Inr ''I''"
    "parse_match (?m ! TAG) ?l LINE_NCHARS = Inr ''ActivityManager''"
    "parse_match (?m ! OWNER) ?l LINE_NCHARS = Inr ''1234''"
    "parse_match (?m ! MESSAGE) ?l LINE_NCHARS = Inr (''Starting activity'' @ [])"
    by (simp_all add: regex_match_defs parse_match_eval)
  have f': "parse_match (?m' ! TIME) (?l @ [NEWLINE]) LINE_NCHARS = Inr ''08-14 10:22:01.123''"
    "parse_match (?m' ! TAGTYPE) (?l @ [NEWLINE]) LINE_NCHARS = Inr ''I''"
    "parse_match (?m' ! TAG) (?l @ [NEWLINE]) LINE_NCHARS = Inr ''ActivityManager''"
    "parse_match (?m' ! OWNER) (?l @ [NEWLINE]) LINE_NCHARS = Inr ''1234''"
    "parse_match (?m' ! MESSAGE) (?l @ [NEWLINE]) LINE_NCHARS
       = Inr (''Starting activity'' @ [NEWLINE])"
    by (simp_all add: regex_match_defs parse_match_eval NEWLINE_def)
  have tm: "tag_map s ''ActivityManager'' = Some COLOR_CYAN"
    using ok main_init_tags(3) by (rule state_ok_seed)
  then have tc: "tag_color ''ActivityManager'' s = (COLOR_CYAN, ?s1)"
    by (rule tag_color_known)
  have c: "COLOR_CYAN < COLOR_NMAX" by (simp add: color_defs)
  have dc: "color dev < COLOR_NMAX"
    using ok assms(2) by (auto simp: state_ok_def)
  have a36: "color_ansi_table ! COLOR_CYAN = 36"
    by (simp add: color_ansi_table_def color_defs)
  have len: "length (log_record (color_ansi_table ! color dev) (name dev) ''08-14 10:22:01.123''
                     ''1234'' (color_ansi_table ! COLOR_CYAN) ''ActivityManager'' ''I''
                     (''Starting activity'' @ nl)) < LINE_NCHARS" if "length nl \<le> 1" for nl
    using that by (simp add: length_log_record[OF dc c] level_badge_def LINE_NCHARS_def)
  have l0: "logcat_line d ?l s = Inr (?s1\<lparr>stdout := stdout ?s1 @
              [log_record (color_ansi_table ! color dev) (name dev) ''08-14 10:22:01.123''
                 ''1234'' 36 ''ActivityManager'' ''I'' (''Starting activity'' @ [])]\<rparr>)"
    using logcat_line_matched[OF assms(2) dc m f(1,2,3,4,5) tc c] len[of "[]"]
    by (simp only: a36 if_True list.size le_numeral_extra)
  have l1: "logcat_line d (?l @ [NEWLINE]) s = Inr (?s1\<lparr>stdout := stdout ?s1 @
              [log_record (color_ansi_table ! color dev) (name dev) ''08-14 10:22:01.123''
                 ''1234'' 36 ''ActivityManager'' ''I'' (''Starting activity'' @ [NEWLINE])]\<rparr>)"
    using logcat_line_matched[OF assms(2) dc m' f'(1,2,3,4,5) tc c] len[of "[NEWLINE]"]
    by (simp only: a36 if_True list.size le_numeral_extra One_nat_def add_0 order_refl)
  have b0: "logcat_line d ?l s
           = Inr (s\<lparr>stray_unlocks := stray_unlocks s + 1,
                    stdout := stdout s @
                      [ESC # ''['' @ [''31'', ''32'', ''33'', ''34'', ''35'', ''36'', ''91'', ''92'', ''93'', ''94'', ''95'', ''96''] ! color dev @ ''m'' @
                       take 16 (name dev) @ replicate (16 - length (name dev)) (CHR '' '') @ ESC # ''[0m '' @
                       ESC # ''[34m08-14 10:22:01.123'' @ ESC # ''[0m '' @
                       ESC # ''[30;100m1234'' @ ESC # ''[0m '' @
                       ESC # ''[36mActivityManager     '' @ ESC # ''[0m '' @
                       ESC # ''[30;42m I '' @ ESC # ''[0m '' @
                       ESC # ''[1;30mStarting activity'' @ ESC # ''[0m'']\<rparr>)"
    unfolding l0 activity_manager_bytes[OF dc] by simp
  have b1: "logcat_line d (?l @ [NEWLINE]) s
           = Inr (s\<lparr>stray_unlocks := stray_unlocks s + 1,
                    stdout := stdout s @
                      [ESC # ''['' @ [''31'', ''32'', ''33'', ''34'', ''35'', ''36'', ''91'', ''92'', ''93'', ''94'', ''95'', ''96''] ! color dev @ ''m'' @
                       take 16 (name dev) @ replicate (16 - length (name dev)) (CHR '' '') @ ESC # ''[0m '' @
                       ESC # ''[34m08-14 10:22:01.123'' @ ESC # ''[0m '' @
                       ESC # ''[30;100m1234'' @ ESC # ''[0m '' @
                       ESC # ''[36mActivityManager     '' @ ESC # ''[0m '' @
                       ESC # ''[30;42m I '' @ ESC # ''[0m '' @
                       ESC # ''[1;30mStarting activity'' @ NEWLINE # ESC # ''[0m'']\<rparr>)"
    unfolding l1 activity_manager_bytes[OF dc] by simp
  have ca: "color_ansi COLOR_CYAN = Inr 36"
    using color_ansi_valid[OF c] by (simp add: a36)
  have g: "?m ! TIME = (0, 18)" "?m ! TAGTYPE = (19, 20)" "?m ! TAG = (21, 36)"
    "?m ! OWNER = (37, 41)" "?m ! MESSAGE = (44, 61)"
    "?m' ! TIME = (0, 18)" "?m' ! TAGTYPE = (19, 20)" "?m' ! TAG = (21, 36)"
    "?m' ! OWNER = (37, 41)" "?m' ! MESSAGE = (44, 62)"
    by (simp_all add: regex_match_defs)
  note f0 = f[unfolded g append_Nil2] and f1 = f'[unfolded g]
  show ?thesis
    apply (intro conjI)
    apply (rule r)
    apply (rule m)
    apply (rule f0(1))
    apply (rule f0(2))
    apply (rule f0(3))
    apply (rule f0(4))
    apply (rule f0(5))
    apply (rule tm)
    apply (rule ca)
    apply (rule b0)
    apply (rule r')
    apply (rule m')
    apply (rule f1(1))
    apply (rule f1(2))
    apply (rule f1(3))
    apply (rule f1(4))
    apply (rule f1(5))
    apply (rule b1)
    done
qed

lemmas find_devices_line_abc123_flat = find_devices_line_abc123[simplified]

theorem activity_manager_line_witness:
  "run_events [DiscoverLine (''ABC123'' @ TAB # ''device'' @ [NEWLINE])] main_init
     = Inr (main_init\<lparr>device_next_color := COLOR_GREEN,
              device_heap := [0 \<mapsto> \<lparr>name = ''ABC123'', fh = None, color = COLOR_RED\<rparr>],
              next_ptr := 1, device_map := [''ABC123'' \<mapsto> 0], threads := [0]\<rparr>) \<and>
   logcat_line 0 ''08-14 10:22:01.123 I/ActivityManager(1234): Starting activity''
       (main_init\<lparr>device_next_color := COLOR_GREEN,
              device_heap := [0 \<mapsto> \<lparr>name = ''ABC123'', fh = None, color = COLOR_RED\<rparr>],
              next_ptr := 1, device_map := [''ABC123'' \<mapsto> 0], threads := [0]\<rparr>)
     = Inr (main_init\<lparr>device_next_color := COLOR_GREEN,
              device_heap := [0 \<mapsto> \<lparr>name = ''ABC123'', fh = None, color = COLOR_RED\<rparr>],
              next_ptr := 1, device_map := [''ABC123'' \<mapsto> 0], threads := [0],
              stray_unlocks := 1,
              stdout := [ESC # ''[31mABC123          '' @ ESC # ''[0m '' @
                         ESC # ''[34m08-14 10:22:01.123'' @ ESC # ''[0m '' @
                         ESC # ''[30;100m1234'' @ ESC # ''[0m '' @
                         ESC # ''[36mActivityManager     '' @ ESC # ''[0m '' @
                         ESC # ''[30;42m I '' @ ESC # ''[0m '' @
                         ESC # ''[1;30mStarting activity'' @ ESC # ''[0m'']\<rparr>) \<and>
   logcat_line 0 (''08-14 10:22:01.123 I/ActivityManager(1234): Starting activity'' @ [NEWLINE])
       (main_init\<lparr>device_next_color := COLOR_GREEN,
              device_heap := [0 \<mapsto> \<lparr>name = ''ABC123'', fh = None, color = COLOR_RED\<rparr>],
              next_ptr := 1, device_map := [''ABC123'' \<mapsto> 0], threads := [0]\<rparr>)
     = Inr (main_init\<lparr>device_next_color := COLOR_GREEN,
              device_heap := [0 \<mapsto> \<lparr>name = ''ABC123'', fh = None, color = COLOR_RED\<rparr>],
              next_ptr := 1, device_map := [''ABC123'' \<mapsto> 0], threads := [0],
              stray_unlocks := 1,
              stdout := [ESC # ''[31mABC123          '' @ ESC # ''[0m '' @
                         ESC # ''[34m08-14 10:22:01.123'' @ ESC # ''[0m '' @
                         ESC # ''[30;100m1234'' @ ESC # ''[0m '' @
                         ESC # ''[36mActivityManager     '' @ ESC # ''[0m '' @
                         ESC # ''[30;42m I '' @ ESC # ''[0m '' @
                         ESC # ''[1;30mStarting activity'' @ NEWLINE # ESC # ''[0m'']\<rparr>)"
proof -
  let ?s = "main_init\<lparr>device_next_color := COLOR_GREEN,
              device_heap := [0 \<mapsto> \<lparr>name = ''ABC123'', fh = None, color = COLOR_RED\<rparr>],
              next_ptr := 1, device_map := [''ABC123'' \<mapsto> 0], threads := [0]\<rparr>"
  have h1: "run_events [DiscoverLine (''ABC123'' @ TAB # ''device'' @ [NEWLINE])] main_init = Inr ?s"
    by (simp add: find_devices_line_abc123_flat)
  have h2: "device_heap ?s 0 = Some \<lparr>name = ''ABC123'', fh = None, color = COLOR_RED\<rparr>"
    by simp
  from activity_manager_line[OF h1 h2] h1 show ?thesis
    by (simp add: main_init_simps color_defs replicate_numeral)
qed

subsection \<open>The tags of the start\<close>

text \<open>
  C9. At the start the tag map holds exactly the four tags \<^verbatim>\<open>dalvikvm\<close> and
  \<^verbatim>\<open>Process\<close>, blue, and \<^verbatim>\<open>ActivityManager\<close> and \<^verbatim>\<open>ActivityThread\<close>, cyan, and the
  tag counter is at red, number 0: filling the map does not move it. In every state the
  threads reach while the tag map is still the one of the start, a tag that is not among
  the four is given red, the counter moves on to green, and the tag is added with red.
\<close>

theorem tag_seeds:
  "dom (tag_map main_init) = {''dalvikvm'', ''Process'', ''ActivityManager'', ''ActivityThread''} \<and>
   tag_map main_init ''dalvikvm'' = Some COLOR_BLUE \<and>
   tag_map main_init ''Process'' = Some COLOR_BLUE \<and>
   tag_map main_init ''ActivityManager'' = Some COLOR_CYAN \<and>
   tag_map main_init ''ActivityThread'' = Some COLOR_CYAN \<and>
   tag_next_color main_init = COLOR_RED \<and> COLOR_RED = 0 \<and>
   (\<forall>evs s tg. run_events evs main_init = Inr s \<and> tag_map s = tag_map main_init \<and>
        tg \<notin> dom (tag_map main_init) \<longrightarrow>
        tag_color tg s =
          (COLOR_RED, s\<lparr>tag_next_color := COLOR_GREEN, tag_map := (tag_map s)(tg \<mapsto> COLOR_RED)\<rparr>))"
proof (intro conjI allI impI)
  fix evs s tg
  assume a: "run_events evs main_init = Inr s \<and> tag_map s = tag_map main_init \<and>
        tg \<notin> dom (tag_map main_init)"
  then have ok: "state_ok s" by (blast intro: reachable_state_ok)
  with a have c: "tag_next_color s = COLOR_RED" by (simp add: state_ok_def)
  from a have n: "tag_map s tg = None" by (simp add: domIff)
  show "tag_color tg s =
          (COLOR_RED, s\<lparr>tag_next_color := COLOR_GREEN, tag_map := (tag_map s)(tg \<mapsto> COLOR_RED)\<rparr>)"
    using c n
    by (simp add: tag_color_def strmap_get_def strmap_add_def next_tag_color_def Let_def
          color_defs)
qed (simp_all add: main_init_tags main_init_simps color_defs)

theorem tag_seeds_witness:
  "run_events [DiscoverLine (''ABC123'' @ TAB # ''device'' @ [NEWLINE])] main_init
     = Inr (main_init\<lparr>device_next_color := COLOR_GREEN,
              device_heap := [0 \<mapsto> \<lparr>name = ''ABC123'', fh = None, color = COLOR_RED\<rparr>],
              next_ptr := 1, device_map := [''ABC123'' \<mapsto> 0], threads := [0]\<rparr>) \<and>
   ''MyTag'' \<notin> dom (tag_map main_init) \<and>
   fst (tag_color ''MyTag''
      (main_init\<lparr>device_next_color := COLOR_GREEN,
              device_heap := [0 \<mapsto> \<lparr>name = ''ABC123'', fh = None, color = COLOR_RED\<rparr>],
              next_ptr := 1, device_map := [''ABC123'' \<mapsto> 0], threads := [0]\<rparr>)) = 0"
proof -
  let ?s = "main_init\<lparr>device_next_color := COLOR_GREEN,
              device_heap := [0 \<mapsto> \<lparr>name = ''ABC123'', fh = None, color = COLOR_RED\<rparr>],
              next_ptr := 1, device_map := [''ABC123'' \<mapsto> 0], threads := [0]\<rparr>"
  have h1: "run_events [DiscoverLine (''ABC123'' @ TAB # ''device'' @ [NEWLINE])] main_init = Inr ?s"
    by (simp add: find_devices_line_abc123_flat)
  have h2: "tag_map ?s = tag_map main_init" by simp
  have h3: "''MyTag'' \<notin> dom (tag_map main_init)" by (simp add: main_init_tags)
  from tag_seeds[THEN conjunct2, THEN conjunct2, THEN conjunct2, THEN conjunct2,
      THEN conjunct2, THEN conjunct2, THEN conjunct2, rule_format, of _ ?s "''MyTag''"]
    h1 h2 h3
  have "tag_color ''MyTag'' ?s =
          (COLOR_RED, ?s\<lparr>tag_next_color := COLOR_GREEN, tag_map := (tag_map ?s)(''MyTag'' \<mapsto> COLOR_RED)\<rparr>)"
    by blast
  with h1 h3 show ?thesis by (simp add: color_defs)
qed

theorem shutdown_never_set_witness:
  "run_events [DiscoverLine (''ABC123'' @ TAB # ''device'' @ [NEWLINE])] main_init
     = Inr (main_init\<lparr>device_next_color := COLOR_GREEN,
              device_heap := [0 \<mapsto> \<lparr>name = ''ABC123'', fh = None, color = COLOR_RED\<rparr>],
              next_ptr := 1, device_map := [''ABC123'' \<mapsto> 0], threads := [0]\<rparr>) \<and>
   \<not> shutdown (main_init\<lparr>device_next_color := COLOR_GREEN,
              device_heap := [0 \<mapsto> \<lparr>name = ''ABC123'', fh = None, color = COLOR_RED\<rparr>],
              next_ptr := 1, device_map := [''ABC123'' \<mapsto> 0], threads := [0]\<rparr>) \<and>
   main [(''ABC123'' @ TAB # ''device'' @ [NEWLINE], [])] = None"
proof -
  let ?s = "main_init\<lparr>device_next_color := COLOR_GREEN,
              device_heap := [0 \<mapsto> \<lparr>name = ''ABC123'', fh = None, color = COLOR_RED\<rparr>],
              next_ptr := 1, device_map := [''ABC123'' \<mapsto> 0], threads := [0]\<rparr>"
  have h1: "run_events [DiscoverLine (''ABC123'' @ TAB # ''device'' @ [NEWLINE])] main_init = Inr ?s"
    by (simp add: find_devices_line_abc123_flat)
  note t = shutdown_never_set
  from t h1 have "\<not> shutdown ?s" by blast
  moreover from t have "main [(''ABC123'' @ TAB # ''device'' @ [NEWLINE], [])] = None" by blast
  ultimately show ?thesis using h1 by blast
qed

subsection \<open>The end of a worker\<close>

lemma logcat_start_success:
  assumes "device_heap s d = Some dev" "popens 0" "popens 1"
  shows "logcat_start d popens s =
     Inr (True, s\<lparr>open_pipes := open_pipes s @ [next_handle s, next_handle s + 1],
                  next_handle := next_handle s + 2,
                  device_heap := (device_heap s)(d \<mapsto> dev\<lparr>fh := Some (next_handle s + 1)\<rparr>)\<rparr>)"
  using assms
  by (simp add: logcat_start_def popen_def set_fh_def)
     (subst logcat_open.simps, simp add: popen_def set_fh_def)

text \<open>
  What the end of a worker does in general: the entry and the device go, the pipes stay.
\<close>

lemma run_logcat_end:
  assumes "device_heap s d = Some dev"
    and "logcat_start d popens s = Inr (True, s1)"
    and "run_logcat d popens stream s = Inr s'"
  shows "device_map s' (name dev) = None \<and> device_heap s' d = None \<and>
         (\<exists>h. device_heap s1 d = Some (dev\<lparr>fh := Some h\<rparr>) \<and> h \<in> set (open_pipes s')) \<and>
         set (open_pipes s) \<subseteq> set (open_pipes s')"
proof -
  from assms(2,3) obtain s2 where
    loop: "logcat_loop d (read_lines stream) s1 = Inr s2" and
    cl: "logcat_cleanup d s2 = Inr s'"
    by (auto simp: run_logcat_def ebind_Inr_iff)
  from logcat_start_frame[OF assms(2)] assms(1) obtain h where
    h: "device_heap s1 = (device_heap s)(d \<mapsto> dev\<lparr>fh := Some h\<rparr>)" "h \<in> set (open_pipes s1)"
    and sub: "set (open_pipes s) \<subseteq> set (open_pipes s1)"
    by auto
  from logcat_loop_frame[OF loop] have
    fr: "device_heap s2 = device_heap s1" "open_pipes s2 = open_pipes s1"
    by simp_all
  from logcat_cleanup_InrD[OF cl] fr h(1) have
    s': "s' = s2\<lparr>device_map := (device_map s2)(name dev := None),
                 device_heap := (device_heap s2)(d := None)\<rparr>"
    by auto
  from s' fr h sub show ?thesis by auto
qed

lemma abc123_worker_run:
  "\<exists>s'. run_logcat 0 (\<lambda>k. True)
          (''08-14 10:22:01.123 I/ActivityManager(1234): Starting activity'' @ [NEWLINE])
          (main_init\<lparr>device_next_color := COLOR_GREEN,
              device_heap := [0 \<mapsto> \<lparr>name = ''ABC123'', fh = None, color = COLOR_RED\<rparr>],
              next_ptr := 1, device_map := [''ABC123'' \<mapsto> 0], threads := [0]\<rparr>) = Inr s' \<and>
        device_map s' ''ABC123'' = None \<and> device_heap s' 0 = None \<and>
        open_pipes s' = [0, 1] \<and>
        stdout s' = [log_record 31 ''ABC123'' ''08-14 10:22:01.123'' ''1234'' 36
                       ''ActivityManager'' ''I'' (''Starting activity'' @ [NEWLINE])]"
proof -
  let ?l = "''08-14 10:22:01.123 I/ActivityManager(1234): Starting activity'' @ [NEWLINE]"
  let ?m = "[(0, 62), (0, 18), (19, 20), (21, 36), (37, 41), (44, 62)] :: (nat \<times> nat) list"
  let ?dev = "\<lparr>name = ''ABC123'', fh = None, color = COLOR_RED\<rparr>"
  let ?s = "main_init\<lparr>device_next_color := COLOR_GREEN,
              device_heap := [0 \<mapsto> ?dev],
              next_ptr := 1, device_map := [''ABC123'' \<mapsto> 0], threads := [0]\<rparr>"
  define s1 where "s1 = ?s\<lparr>open_pipes := open_pipes ?s @ [next_handle ?s, next_handle ?s + 1],
                  next_handle := next_handle ?s + 2,
                  device_heap := (device_heap ?s)(0 \<mapsto> ?dev\<lparr>fh := Some (next_handle ?s + 1)\<rparr>)\<rparr>"
  have st: "logcat_start 0 (\<lambda>k. True) ?s = Inr (True, s1)"
    unfolding s1_def by (rule logcat_start_success) simp_all
  have rl: "read_lines ?l = [?l]"
    by (rule read_lines_single) (simp_all add: char_defs)
  have heap1: "device_heap s1 0 = Some (?dev\<lparr>fh := Some 1\<rparr>)"
    by (simp add: s1_def main_init_simps)
  have m: "regexec_log ?l = Some ?m"
    by (simp add: regexec_log_eval)
  have f: "parse_match (?m ! TIME) ?l LINE_NCHARS = Inr ''08-14 10:22:01.123''"
    "parse_match (?m ! TAGTYPE) ?l LINE_NCHARS = Inr ''I''"
    "parse_match (?m ! TAG) ?l LINE_NCHARS = Inr ''ActivityManager''"
    "parse_match (?m ! OWNER) ?l LINE_NCHARS = Inr ''1234''"
    "parse_match (?m ! MESSAGE) ?l LINE_NCHARS = Inr (''Starting activity'' @ [NEWLINE])"
    by (simp_all add: regex_match_defs parse_match_eval NEWLINE_def)
  have tm: "tag_map s1 ''ActivityManager'' = Some COLOR_CYAN"
    by (simp add: s1_def main_init_tags)
  define s2 where "s2 = s1\<lparr>stray_unlocks := stray_unlocks s1 + 1\<rparr>"
  have tc: "tag_color ''ActivityManager'' s1 = (COLOR_CYAN, s2)"
    unfolding s2_def using tm by (rule tag_color_known)
  have c: "COLOR_CYAN < COLOR_NMAX" "color (?dev\<lparr>fh := Some 1\<rparr>) < COLOR_NMAX"
    by (simp_all add: color_defs)
  let ?rec = "log_record (color_ansi_table ! color (?dev\<lparr>fh := Some 1\<rparr>))
                (name (?dev\<lparr>fh := Some 1\<rparr>)) ''08-14 10:22:01.123''
                ''1234'' (color_ansi_table ! COLOR_CYAN) ''ActivityManager'' ''I''
                (''Starting activity'' @ [NEWLINE])"
  have cr: "COLOR_RED < COLOR_NMAX" by (simp add: color_defs)
  have len: "length ?rec < LINE_NCHARS"
    by (simp add: length_log_record[OF cr c(1)] level_badge_def LINE_NCHARS_def)
  have line: "logcat_line 0 ?l s1 = Inr (s2\<lparr>stdout := stdout s2 @ [?rec]\<rparr>)"
    using logcat_line_matched[OF heap1 c(2) m f(1,2,3,4,5) tc c(1)] len by simp
  have nsh: "\<not> shutdown s1" by (simp add: s1_def main_init_simps)
  have loop: "logcat_loop 0 (read_lines ?l) s1 = Inr (s2\<lparr>stdout := stdout s2 @ [?rec]\<rparr>)"
    unfolding rl using line nsh by simp
  have rec: "?rec = log_record 31 ''ABC123'' ''08-14 10:22:01.123'' ''1234'' 36
                       ''ActivityManager'' ''I'' (''Starting activity'' @ [NEWLINE])"
    by (simp add: color_ansi_table_def color_defs)
  have heap2: "device_heap s2 0 = Some (?dev\<lparr>fh := Some 1\<rparr>)"
    using heap1 by (simp add: s2_def)
  have "run_logcat 0 (\<lambda>k. True) ?l ?s
        = logcat_cleanup 0 (s2\<lparr>stdout := stdout s2 @ [?rec]\<rparr>)"
    by (simp only: run_logcat_def st ebind_Inr prod.case if_True loop)
  also have "\<dots> = Inr (s2\<lparr>stdout := stdout s2 @ [?rec],
                         device_map := (device_map s2)(''ABC123'' := None),
                         device_heap := (device_heap s2)(0 := None)\<rparr>)"
    using heap2 by (simp add: logcat_cleanup_def strmap_del_def)
  finally have "run_logcat 0 (\<lambda>k. True) ?l ?s
        = Inr (s2\<lparr>stdout := stdout s2 @ [?rec],
                         device_map := (device_map s2)(''ABC123'' := None),
                         device_heap := (device_heap s2)(0 := None)\<rparr>)" .
  moreover have "open_pipes s2 = [0, 1]" "stdout s2 = []"
    by (simp_all add: s2_def s1_def main_init_simps)
  ultimately show ?thesis
    using rec by simp
qed

text \<open>
  C3. A worker that ends should give back what it holds: the entry of its device in the
  device map, the device object, and the handle of its log. The worker of the device
  \<^verbatim>\<open>ABC123\<close> opens its log, which leaves the handle 1 in \<^verbatim>\<open>d->fh\<close>, reads one
  line and comes to the end of the stream. It deletes the entry of \<^verbatim>\<open>ABC123\<close> and
  frees the device, and it closes nothing: \<^verbatim>\<open>run_logcat\<close> has no call of
  \<^verbatim>\<open>pclose\<close>. When the thread ends, the pipe 1 that was in \<^verbatim>\<open>d->fh\<close> is still
  open, and so is the pipe 0 of line 352, whose handle the first pass of the loop of
  line 353 has overwritten.
\<close>

theorem worker_end_leaves_pipes_open:
  "ebind (find_devices_line (''ABC123'' @ TAB # ''device'' @ [NEWLINE]) main_init) (\<lambda>s.
   ebind (logcat_start 0 (\<lambda>k. True) s) (\<lambda>(opened, s1).
     Inr (opened, map_option fh (device_heap s1 0))))
   = Inr (True, Some (Some 1)) \<and>
   ebind (find_devices_line (''ABC123'' @ TAB # ''device'' @ [NEWLINE]) main_init) (\<lambda>s.
   ebind (run_logcat 0 (\<lambda>k. True)
            (''08-14 10:22:01.123 I/ActivityManager(1234): Starting activity'' @ [NEWLINE]) s)
     (\<lambda>s'. Inr (device_map s' ''ABC123'', device_heap s' 0, open_pipes s', length (stdout s'))))
   = Inr (None, None, [0, 1], 1)"
proof -
  from abc123_worker_run obtain s' where
    "run_logcat 0 (\<lambda>k. True)
          (''08-14 10:22:01.123 I/ActivityManager(1234): Starting activity'' @ [NEWLINE])
          (main_init\<lparr>device_next_color := COLOR_GREEN,
              device_heap := [0 \<mapsto> \<lparr>name = ''ABC123'', fh = None, color = COLOR_RED\<rparr>],
              next_ptr := 1, device_map := [''ABC123'' \<mapsto> 0], threads := [0]\<rparr>) = Inr s'"
    "device_map s' ''ABC123'' = None" "device_heap s' 0 = None" "open_pipes s' = [0, 1]"
    "length (stdout s') = 1"
    by auto
  moreover have "\<exists>s1. logcat_start 0 (\<lambda>k. True)
          (main_init\<lparr>device_next_color := COLOR_GREEN,
              device_heap := [0 \<mapsto> \<lparr>name = ''ABC123'', fh = None, color = COLOR_RED\<rparr>],
              next_ptr := 1, device_map := [''ABC123'' \<mapsto> 0], threads := [0]\<rparr>)
          = Inr (True, s1) \<and> map_option fh (device_heap s1 0) = Some (Some 1)"
    by (subst logcat_start_success) (simp_all add: main_init_simps)
  ultimately show ?thesis
    unfolding find_devices_line_abc123 by auto
qed

subsection \<open>Levels and badges\<close>

lemma level_badge_table:
  "level_badge [c] =
     (if c = CHR ''D'' then ESC # ''[30;44m D '' @ ESC # ''[0m''
      else if c = CHR ''E'' then ESC # ''[30;41m E '' @ ESC # ''[0m''
      else if c = CHR ''F'' then ESC # ''[5;30;41m F '' @ ESC # ''[0m''
      else if c = CHR ''I'' then ESC # ''[30;42m I '' @ ESC # ''[0m''
      else if c = CHR ''V'' then ESC # ''[37m V ''
      else if c = CHR ''W'' then ESC # ''[30;43m W '' @ ESC # ''[0m''
      else [])"
  by (simp add: level_badge_def)

lemma level_badge_unknown: "c \<notin> set ''DEFIVW'' \<Longrightarrow> level_badge [c] = []"
  by (simp add: level_badge_def)

lemma logcat_line_record:
  assumes ok: "state_ok s" and heap: "device_heap s d = Some dev"
    and line: "line \<in> set (read_lines stream)" and m: "regexec_log line = Some m"
  shows "\<exists>time lv tg owner message c s1.
           log_layout time [lv] tg owner message = line \<and>
           tag_color tg s = (c, s1) \<and>
           logcat_line d line s =
             (if length (log_record (color_ansi_table ! color dev) (name dev) time owner
                           (color_ansi_table ! c) tg [lv] message) < LINE_NCHARS
              then Inr (s1\<lparr>stdout := stdout s1 @
                          [log_record (color_ansi_table ! color dev) (name dev) time owner
                             (color_ansi_table ! c) tg [lv] message]\<rparr>)
              else Inl BufferOverflow)"
proof -
  from read_lines_props[OF line] have "NUL \<notin> set line" "length line < LINE_NCHARS"
    by simp_all
  from regexec_log_fields[OF this m] obtain ts lv tg ow msg where
    l: "line = ts @ CHR '' '' # lv # CHR ''/'' # tg @ CHR ''('' # ow @ ''): '' @ msg" and
    f: "parse_match (m ! TIME) line LINE_NCHARS = Inr ts"
    "parse_match (m ! TAGTYPE) line LINE_NCHARS = Inr [lv]"
    "parse_match (m ! TAG) line LINE_NCHARS = Inr tg"
    "parse_match (m ! OWNER) line LINE_NCHARS = Inr ow"
    "parse_match (m ! MESSAGE) line LINE_NCHARS = Inr msg"
    by blast
  obtain c s1 where tc: "tag_color tg s = (c, s1)" by (cases "tag_color tg s")
  from tag_color_valid[OF ok, of tg] tc have c: "c < COLOR_NMAX" by simp
  from ok heap have dc: "color dev < COLOR_NMAX" by (auto simp: state_ok_def)
  from l have "log_layout ts [lv] tg ow msg = line" by (simp add: log_layout_def)
  with logcat_line_matched[OF heap dc m f tc c] tc show ?thesis by blast
qed

text \<open>
  C6. A line whose level has no badge should still be written with all its other
  fields. For the device \<open>ABC123\<close>: the level \<open>X\<close> has no badge, and a short
  line with this level is written with all its other fields. A line of 980 bytes with the
  same level, read whole by \<^verbatim>\<open>fgets\<close> and matched by the pattern, makes a record of
  1062 bytes; the calls of \<^verbatim>\<open>sprintf\<close> write it into \<^verbatim>\<open>log\<close>, an array of 1024
  bytes, past its end, and no record is written.
\<close>

theorem unknown_level_long_line:
  "level_badge ''X'' = [] \<and>
   ebind (find_devices_line (''ABC123'' @ TAB # ''device'' @ [NEWLINE]) main_init) (\<lambda>s.
     ebind (logcat_line 0 ''08-14 10:22:01.123 X/Tag(1): hi'' s) (\<lambda>s'. Inr (stdout s')))
     = Inr [log_record 31 ''ABC123'' ''08-14 10:22:01.123'' ''1'' 31 ''Tag'' ''X'' ''hi''] \<and>
   log_record 31 ''ABC123'' ''08-14 10:22:01.123'' ''1'' 31 ''Tag'' ''X'' ''hi''
     = fmt_device 31 ''ABC123'' @ fmt_time ''08-14 10:22:01.123'' @ fmt_owner ''1'' @
       fmt_tag 31 ''Tag'' @ '' '' @ fmt_message ''hi'' \<and>
   read_lines (''08-14 10:22:01.123 X/Tag(1): '' @ replicate 950 (CHR ''x'') @ [NEWLINE])
     = [''08-14 10:22:01.123 X/Tag(1): '' @ replicate 950 (CHR ''x'') @ [NEWLINE]] \<and>
   regexec_log (''08-14 10:22:01.123 X/Tag(1): '' @ replicate 950 (CHR ''x'') @ [NEWLINE])
     = Some [(0, 980), (0, 18), (19, 20), (21, 24), (25, 26), (29, 980)] \<and>
   ebind (find_devices_line (''ABC123'' @ TAB # ''device'' @ [NEWLINE]) main_init)
     (logcat_line 0 (''08-14 10:22:01.123 X/Tag(1): '' @ replicate 950 (CHR ''x'') @ [NEWLINE]))
     = Inl BufferOverflow"
proof -
  let ?dev = "\<lparr>name = ''ABC123'', fh = None, color = COLOR_RED\<rparr>"
  let ?s = "main_init\<lparr>device_next_color := COLOR_GREEN,
              device_heap := [0 \<mapsto> ?dev],
              next_ptr := 1, device_map := [''ABC123'' \<mapsto> 0], threads := [0]\<rparr>"
  let ?s1 = "?s\<lparr>tag_next_color := COLOR_GREEN, tag_map := (tag_map ?s)(''Tag'' \<mapsto> COLOR_RED)\<rparr>"
  have heap: "device_heap ?s 0 = Some ?dev" by simp
  have cr: "COLOR_RED < COLOR_NMAX" "color ?dev < COLOR_NMAX" by (simp_all add: color_defs)
  have a31: "color_ansi_table ! COLOR_RED = 31" by (simp add: color_ansi_table_def color_defs)
  have tc: "tag_color ''Tag'' ?s = (COLOR_RED, ?s1)"
    by (simp add: tag_color_def strmap_get_def strmap_add_def next_tag_color_def Let_def
          main_init_tags main_init_simps main_init_def color_defs)
  have b: "level_badge ''X'' = []" by (simp add: level_badge_def)
  \<comment> \<open>the short line\<close>
  let ?l = "''08-14 10:22:01.123 X/Tag(1): hi''"
  let ?m = "[(0, 31), (0, 18), (19, 20), (21, 24), (25, 26), (29, 31)] :: (nat \<times> nat) list"
  have m: "regexec_log ?l = Some ?m" by (simp add: regexec_log_eval)
  have f: "parse_match (?m ! TIME) ?l LINE_NCHARS = Inr ''08-14 10:22:01.123''"
    "parse_match (?m ! TAGTYPE) ?l LINE_NCHARS = Inr ''X''"
    "parse_match (?m ! TAG) ?l LINE_NCHARS = Inr ''Tag''"
    "parse_match (?m ! OWNER) ?l LINE_NCHARS = Inr ''1''"
    "parse_match (?m ! MESSAGE) ?l LINE_NCHARS = Inr ''hi''"
    by (simp_all add: regex_match_defs parse_match_eval)
  have short: "logcat_line 0 ?l ?s = Inr (?s1\<lparr>stdout := stdout ?s1 @
      [log_record 31 ''ABC123'' ''08-14 10:22:01.123'' ''1'' 31 ''Tag'' ''X'' ''hi'']\<rparr>)"
  proof -
    have "length (log_record (color_ansi_table ! COLOR_RED) ''ABC123'' ''08-14 10:22:01.123''
            ''1'' (color_ansi_table ! COLOR_RED) ''Tag'' ''X'' ''hi'') < LINE_NCHARS"
      by (simp add: length_log_record[OF cr(1) cr(1)] b LINE_NCHARS_def)
    with logcat_line_matched[OF heap cr(2) m f tc cr(1)] show ?thesis
      by (simp add: a31)
  qed
  \<comment> \<open>the long line\<close>
  let ?msg = "replicate 950 (CHR ''x'') @ [NEWLINE]"
  let ?L = "''08-14 10:22:01.123 X/Tag(1): '' @ ?msg"
  let ?M = "[(0, 980), (0, 18), (19, 20), (21, 24), (25, 26), (29, 980)] :: (nat \<times> nat) list"
  have rl: "read_lines ?L = [?L]"
    using read_lines_single[of "''08-14 10:22:01.123 X/Tag(1): '' @ replicate 950 (CHR ''x'')"]
    by (simp add: char_defs)
  have M: "regexec_log ?L = Some ?M"
    using regexec_log_match[of "''08-14 10:22:01.123''" "CHR ''X''" "''Tag''" "''1''" ?msg]
    by (simp add: TIME_PATTERN_def is_digit_def is_upper_def tag_char_def owner_char_def
          BACKSLASH_def)
  have nul: "NUL \<notin> set ?L" by (simp add: char_defs)
  have len: "length ?L < LINE_NCHARS" by (simp add: LINE_NCHARS_def)
  have F: "parse_match (?M ! TIME) ?L LINE_NCHARS = Inr ''08-14 10:22:01.123''"
    "parse_match (?M ! TAGTYPE) ?L LINE_NCHARS = Inr ''X''"
    "parse_match (?M ! TAG) ?L LINE_NCHARS = Inr ''Tag''"
    "parse_match (?M ! OWNER) ?L LINE_NCHARS = Inr ''1''"
    "parse_match (?M ! MESSAGE) ?L LINE_NCHARS = Inr ?msg"
    using nul len by (simp_all add: regex_match_defs parse_match_sub)
  have long: "logcat_line 0 ?L ?s = Inl BufferOverflow"
  proof -
    have "\<not> length (log_record (color_ansi_table ! COLOR_RED) ''ABC123'' ''08-14 10:22:01.123''
            ''1'' (color_ansi_table ! COLOR_RED) ''Tag'' ''X'' ?msg) < LINE_NCHARS"
      by (simp add: length_log_record[OF cr(1) cr(1)] b LINE_NCHARS_def)
    with logcat_line_matched[OF heap cr(2) M F tc cr(1)] show ?thesis
      by simp
  qed
  show ?thesis
    unfolding find_devices_line_abc123
    using b short rl M long
    by (simp add: log_record_def b main_init_simps)
qed

subsection \<open>Interleaved workers\<close>

lemma tag_steps_alone:
  "run_schedule [0, 0, 0, 0] ([tag_worker_init tg], s) =
     ([\<lparr>w_at = AT_DONE, w_tag = tg, w_col = Some (fst (tag_color tg s)),
        w_shown = Some (fst (tag_color tg s))\<rparr>], snd (tag_color tg s))"
  by (cases "tag_map s tg")
     (simp_all add: tag_step_def tag_worker_init_def tag_color_def strmap_get_def
        next_tag_color_def Let_def)

text \<open>
  C1. Were the lookup of a tag and its insertion one atomic operation, two workers that
  read a line with the same new tag \<open>MyTag\<close> would end as if one had run after the
  other: both print the tag in red and the counter moves once, in either order. In
  main.c the two are separate critical sections. When the steps of the workers
  alternate, both lookups find no entry, both take a color from the counter, the second
  insertion finds the entry of the first, and the second worker prints the tag in green
  while the map holds red; the counter has moved twice.
\<close>

theorem tag_lookup_insert_race:
  "(case run_schedule [0, 0, 0, 0, 1, 1, 1, 1]
           ([tag_worker_init ''MyTag'', tag_worker_init ''MyTag''], main_init) of
      (ws, s) \<Rightarrow> (map w_shown ws, tag_map s ''MyTag'', tag_next_color s))
     = ([Some COLOR_RED, Some COLOR_RED], Some COLOR_RED, COLOR_GREEN) \<and>
   (case run_schedule [1, 1, 1, 1, 0, 0, 0, 0]
           ([tag_worker_init ''MyTag'', tag_worker_init ''MyTag''], main_init) of
      (ws, s) \<Rightarrow> (map w_shown ws, tag_map s ''MyTag'', tag_next_color s))
     = ([Some COLOR_RED, Some COLOR_RED], Some COLOR_RED, COLOR_GREEN) \<and>
   (case run_schedule [0, 1, 0, 1, 0, 1, 0, 1]
           ([tag_worker_init ''MyTag'', tag_worker_init ''MyTag''], main_init) of
      (ws, s) \<Rightarrow> (map w_shown ws, tag_map s ''MyTag'', tag_next_color s))
     = ([Some COLOR_RED, Some COLOR_GREEN], Some COLOR_RED, COLOR_YELLOW)"
  by (simp add: tag_step_def tag_worker_init_def strmap_get_def strmap_add_def
        next_tag_color_def Let_def main_init_def color_defs)

subsection \<open>The order of the colors\<close>

lemma find_devices_line_new_worker:
  assumes ok: "state_ok s" and l: "find_devices_line l s = Inr s'"
    and n: "threads s' \<noteq> threads s"
  shows "\<exists>nm. threads s' = threads s @ [next_ptr s] \<and>
           device_heap s' (next_ptr s) =
             Some \<lparr>name = nm, fh = None, color = length (threads s) mod COLOR_NMAX\<rparr> \<and>
           tag_next_color s' = tag_next_color s"
  using find_devices_line_InrD[OF l] n ok
  by (auto simp: state_ok_def)

lemma tag_color_new:
  assumes "tag_map s tg = None" "tag_next_color s < COLOR_NMAX"
  shows "tag_color tg s =
     (tag_next_color s,
      s\<lparr>tag_next_color := (tag_next_color s + 1) mod COLOR_NMAX,
        tag_map := (tag_map s)(tg \<mapsto> tag_next_color s)\<rparr>)"
  using assms
  by (simp add: tag_color_def strmap_get_def strmap_add_def next_tag_color_eq)

text \<open>
  C4. The palette has 12 colors and starts with red, number 0. However allocations from
  the device counter and from the tag counter follow one another, each allocation returns
  the number of earlier allocations from the same counter, modulo 12, so neither counter
  moves the other and after the last color comes the first. The discovery thread takes
  a device color exactly when it starts a worker: the k-th worker started has color
  \<open>(k - 1) mod 12\<close>, and the tag counter is as it was. A worker handling a line leaves
  the device counter as it was, and a tag not yet in the tag map is given the color at
  which the tag counter stands.
\<close>

theorem color_allocation_round_robin:
  "COLOR_NMAX = 12 \<and> COLOR_RED = 0 \<and>
   (\<forall>ks i. i < length ks \<longrightarrow>
      allocate_all ks main_init ! i
        = length (filter (\<lambda>k. k = ks ! i) (take i ks)) mod COLOR_NMAX) \<and>
   (\<forall>evs s l s'. run_events evs main_init = Inr s \<and> find_devices_line l s = Inr s' \<and>
        threads s' \<noteq> threads s \<longrightarrow>
        (\<exists>nm. threads s' = threads s @ [next_ptr s] \<and>
           device_heap s' (next_ptr s) =
             Some \<lparr>name = nm, fh = None, color = length (threads s) mod COLOR_NMAX\<rparr> \<and>
           tag_next_color s' = tag_next_color s)) \<and>
   (\<forall>d l s s'. logcat_line d l s = Inr s' \<longrightarrow> device_next_color s' = device_next_color s) \<and>
   (\<forall>tg (s :: state). tag_map s tg = None \<and> tag_next_color s < COLOR_NMAX \<longrightarrow>
        tag_color tg s =
          (tag_next_color s,
           s\<lparr>tag_next_color := (tag_next_color s + 1) mod COLOR_NMAX,
             tag_map := (tag_map s)(tg \<mapsto> tag_next_color s)\<rparr>))"
proof (intro conjI allI impI)
  show "COLOR_NMAX = 12" "COLOR_RED = 0" by (simp_all add: color_defs)
next
  fix ks :: "counter list" and i
  assume "i < length ks"
  then show "allocate_all ks main_init ! i
        = length (filter (\<lambda>k. k = ks ! i) (take i ks)) mod COLOR_NMAX"
    using allocate_all_nth[of i ks main_init]
    by (cases "ks ! i") (simp_all add: main_init_simps color_defs)
next
  fix evs s l s'
  assume a: "run_events evs main_init = Inr s \<and> find_devices_line l s = Inr s' \<and>
        threads s' \<noteq> threads s"
  then have ok: "state_ok s" by (blast intro: reachable_state_ok)
  from a have l: "find_devices_line l s = Inr s'" and n: "threads s' \<noteq> threads s"
    by simp_all
  from find_devices_line_new_worker[OF ok l n]
  show "\<exists>nm. threads s' = threads s @ [next_ptr s] \<and>
           device_heap s' (next_ptr s) =
             Some \<lparr>name = nm, fh = None, color = length (threads s) mod COLOR_NMAX\<rparr> \<and>
           tag_next_color s' = tag_next_color s" .
next
  fix d l s s'
  assume "logcat_line d l s = Inr s'"
  from logcat_line_frame[OF this] show "device_next_color s' = device_next_color s" by simp
next
  fix tg and s :: state
  assume "tag_map s tg = None \<and> tag_next_color s < COLOR_NMAX"
  then show "tag_color tg s =
          (tag_next_color s,
           s\<lparr>tag_next_color := (tag_next_color s + 1) mod COLOR_NMAX,
             tag_map := (tag_map s)(tg \<mapsto> tag_next_color s)\<rparr>)"
    by (intro tag_color_new) simp_all
qed

theorem color_allocation_round_robin_witness:
  "allocate_all [DeviceCounter, TagCounter, DeviceCounter, TagCounter, TagCounter] main_init ! 4 = 2 \<and>
   run_events [] main_init = Inr main_init \<and>
   find_devices_line (''ABC123'' @ TAB # ''device'' @ [NEWLINE]) main_init
     = Inr (main_init\<lparr>device_next_color := COLOR_GREEN,
              device_heap := [0 \<mapsto> \<lparr>name = ''ABC123'', fh = None, color = COLOR_RED\<rparr>],
              next_ptr := 1, device_map := [''ABC123'' \<mapsto> 0], threads := [0]\<rparr>) \<and>
   COLOR_RED = length (threads main_init) mod COLOR_NMAX \<and>
   fst (tag_color ''MyTag'' main_init) = 0"
proof -
  let ?s = "main_init\<lparr>device_next_color := COLOR_GREEN,
              device_heap := [0 \<mapsto> \<lparr>name = ''ABC123'', fh = None, color = COLOR_RED\<rparr>],
              next_ptr := 1, device_map := [''ABC123'' \<mapsto> 0], threads := [0]\<rparr>"
  note t = color_allocation_round_robin
  note t3 = t [THEN conjunct2, THEN conjunct2, THEN conjunct1, rule_format]
  note t4 = t [THEN conjunct2, THEN conjunct2, THEN conjunct2, THEN conjunct1, rule_format]
  note t6 = t [THEN conjunct2, THEN conjunct2, THEN conjunct2, THEN conjunct2, THEN conjunct2,
                rule_format]
  have 1: "allocate_all [DeviceCounter, TagCounter, DeviceCounter, TagCounter, TagCounter] main_init ! 4 = 2"
    using t3 [of 4 "[DeviceCounter, TagCounter, DeviceCounter, TagCounter, TagCounter]"]
    by (simp add: color_defs)
  have 2: "run_events [] main_init = Inr main_init" by simp
  have 3: "find_devices_line (''ABC123'' @ TAB # ''device'' @ [NEWLINE]) main_init = Inr ?s"
    by (rule find_devices_line_abc123)
  have ne: "threads ?s \<noteq> threads main_init" by (simp add: main_init_simps)
  from t4 [OF conjI [OF 2 conjI [OF 3 ne]]]
  have 4: "COLOR_RED = length (threads main_init) mod COLOR_NMAX"
    by (simp add: main_init_simps)
  have "''MyTag'' \<notin> dom (tag_map main_init)" by (simp add: main_init_tags)
  then have "tag_map main_init ''MyTag'' = None \<and> tag_next_color main_init < COLOR_NMAX"
    by (simp add: domIff main_init_simps color_defs)
  from t6 [OF this] have 5: "fst (tag_color ''MyTag'' main_init) = 0"
    by (simp add: main_init_simps color_defs)
  show ?thesis
    by (intro conjI) (fact 1 2 3 4 5)+
qed

end
